theory Spec2Isabelle
  imports Main "HOL-Library.Word"
begin

section \<open>The task and shared-memory layer of the kernel (kernel/tasking.c)\<close>

text \<open>
  The kernel objects of \<^verbatim>\<open>kernel/tasking.c\<close> live on the kernel heap and are
  referred to by pointers. The embedding keeps that: a pointer is an address
  (\<open>NULL\<close> is address 0), every kind of object has its own store (a map from
  addresses to records), and every function takes the kernel state and returns
  the updated one. A failed \<^verbatim>\<open>assert\<close> halts the kernel, a read through a
  pointer that names no live object is undefined in C, and a task that yields
  may never be resumed: the three are the \<open>fault\<close> values, returned with
  \<open>Inl\<close>.

  The collaborators of the layer (scheduler, memory manager, file system, path
  library, architecture code) are not part of the file. What they return is
  read from the \<open>env\<close> record given to every function; that they were called, and
  with what, is appended to the \<open>events\<close> of the state in call order.
  Locks (\<^verbatim>\<open>lock_acquire\<close>, \<^verbatim>\<open>lock_release\<close>) are not modelled: the embedding is
  sequential, where each acquire finds its lock free and each release returns it.
\<close>

subsection \<open>Data\<close>

type_synonym ptr = nat
type_synonym uintptr = "32 word"
type_synonym byte = "8 word"

definition NULL :: ptr where
  "NULL = 0"

datatype TaskState =
  TASK_STATE_NONE | TASK_STATE_HANG | TASK_STATE_RUNNING | TASK_STATE_BLOCKED | TASK_STATE_CANCELED

datatype Result =
  SUCCESS | TIMEOUT | ERR_NO_SUCH_TASK | ERR_NO_SUCH_FILE_OR_DIRECTORY | ERR_NOT_A_DIRECTORY
  | ERR_BAD_ADDRESS

datatype BlockerResult = BLOCKER_UNBLOCKED | BLOCKER_TIMEOUT | BLOCKER_CANCELLED

datatype fault = AssertionFailed | InvalidPointer | NeverResumed

text \<open>
  \<^verbatim>\<open>struct Task\<close>. C \<^verbatim>\<open>int\<close> fields are 32-bit words (read as signed with \<open>sint\<close>);
  the three lists the code reaches through \<^verbatim>\<open>List *\<close> are lists of pointers.
  The path type belongs to the path library and stays a type parameter.
\<close>

record 'p Task =
  task_id :: "32 word"
  task_name :: string
  task_state :: TaskState
  task_user :: bool
  task_entry :: uintptr
  task_pdir :: ptr
  task_stack :: uintptr
  task_stack_pointer :: uintptr
  task_cwd_path :: 'p
  task_handles :: "ptr list"
  task_memory_mapping :: "ptr list"
  task_blocker :: ptr
  task_exit_value :: "32 word"

text \<open>
  Modelled from the spec: \<^verbatim>\<open>struct Blocker\<close> and its two variants (a tagged
  structure sharing the header \<open>result\<close>, \<open>timeout\<close>) are declared outside the
  file. The time blocker carries its wake-up tick, the wait blocker the task it
  waits for and the address its exit value is written to.
\<close>

datatype BlockerKind = BlockerTime "32 word" | BlockerWait ptr uintptr

record Blocker =
  blocker_result :: BlockerResult
  blocker_timeout :: "32 word"
  blocker_kind :: BlockerKind

text \<open>
  \<^verbatim>\<open>struct MemoryObject\<close> and \<^verbatim>\<open>struct MemoryMapping\<close>. The declaration of
  \<open>refcount\<close> is outside the file; it is an integer here, and the wrap-around of
  a counter with more than \<open>2 ^ 32\<close> references is not modelled.
\<close>

record MemoryObject =
  object_id :: "32 word"
  object_refcount :: int
  object_address :: uintptr
  object_size :: "32 word"

record MemoryMapping =
  mapping_object :: ptr
  mapping_address :: uintptr
  mapping_size :: "32 word"

datatype FileType = FILE_TYPE_DIRECTORY | FILE_TYPE_OTHER nat

text \<open>Calls into the collaborators, in the order the code makes them.\<close>

datatype event =
  Scheduler_did_change_task_state ptr TaskState TaskState
  | Memory_pdir_create ptr
  | Memory_pdir_destroy ptr
  | Memory_alloc ptr "32 word" uintptr
  | Memory_free ptr uintptr "32 word"
  | Virtual_alloc ptr uintptr "32 word" uintptr
  | Virtual_free ptr uintptr "32 word"
  | Physical_alloc "32 word" uintptr
  | Physical_free uintptr "32 word"
  | Arch_save_context ptr
  | Task_fshandle_close_all ptr
  | Filesystem_find_and_ref ptr
  | Fsnode_deref ptr

record 'p kstate =
  TID :: "32 word"
  all_tasks :: "ptr list"
  tasks :: "ptr \<rightharpoonup> 'p Task"
  blockers :: "ptr \<rightharpoonup> Blocker"
  memory_object_id :: "32 word"
  memory_objects :: "ptr list"
  objects :: "ptr \<rightharpoonup> MemoryObject"
  mappings :: "ptr \<rightharpoonup> MemoryMapping"
  heap_top :: ptr
  memory :: "uintptr \<Rightarrow> byte"
  atomic_depth :: nat
  events :: "event list"

text \<open>
  What the collaborators return, and the constants of the headers. An answer may
  depend on the state, and through \<open>events\<close> on every earlier call.
  \<open>scheduler_yield\<close> gives the state in which the task runs again, or \<open>None\<close>
  when it never does.
\<close>

record 'p env =
  memory_kpdir :: ptr
  memory_pdir_create :: "'p kstate \<Rightarrow> ptr"
  memory_alloc :: "'p kstate \<Rightarrow> ptr \<Rightarrow> 32 word \<Rightarrow> uintptr"
  physical_alloc :: "'p kstate \<Rightarrow> 32 word \<Rightarrow> uintptr"
  virtual_alloc :: "'p kstate \<Rightarrow> ptr \<Rightarrow> uintptr \<Rightarrow> 32 word \<Rightarrow> uintptr"
  system_get_tick :: "'p kstate \<Rightarrow> 32 word"
  scheduler_running :: "'p kstate \<Rightarrow> ptr"
  scheduler_yield :: "'p kstate \<Rightarrow> 'p kstate option"
  path_create :: "string \<Rightarrow> 'p"
  path_is_relative :: "'p \<Rightarrow> bool"
  path_combine :: "'p \<Rightarrow> 'p \<Rightarrow> 'p"
  path_normalize :: "'p \<Rightarrow> 'p"
  filesystem_find_and_ref :: "'p kstate \<Rightarrow> 'p \<Rightarrow> (ptr \<times> FileType) option"
  PROCESS_NAME_SIZE :: nat
  PROCESS_HANDLE_COUNT :: nat
  PROCESS_STACK_SIZE :: "32 word"
  PROCESS_ARG_COUNT :: nat
  PAGE_SIZE :: "32 word"
  PAGE_ALIGN_UP :: "32 word \<Rightarrow> 32 word"

subsection \<open>Atomic sections and the kernel heap\<close>

text \<open>
  Modelled from the spec: \<^verbatim>\<open>libsystem/Atomic.h\<close> is outside the file. Atomic
  sections nest by a counter; \<^verbatim>\<open>ASSERT_ATOMIC\<close> holds inside one.
\<close>

definition atomic_begin :: "'p kstate \<Rightarrow> 'p kstate" where
  "atomic_begin s = s\<lparr>atomic_depth := atomic_depth s + 1\<rparr>"

definition atomic_end :: "'p kstate \<Rightarrow> 'p kstate" where
  "atomic_end s = s\<lparr>atomic_depth := atomic_depth s - 1\<rparr>"

definition ASSERT_ATOMIC :: "'p kstate \<Rightarrow> bool" where
  "ASSERT_ATOMIC s = (0 < atomic_depth s)"

text \<open>
  \<^verbatim>\<open>__create\<close> and \<^verbatim>\<open>free\<close>: the allocator hands out the address above the highest
  one it has given so far, so a new object never shares its address with an
  earlier one and is never at \<open>NULL\<close>.
\<close>

definition malloc :: "'p kstate \<Rightarrow> ptr \<times> 'p kstate" where
  "malloc s = (Suc (heap_top s), s\<lparr>heap_top := Suc (heap_top s)\<rparr>)"

definition log_event :: "event \<Rightarrow> 'p kstate \<Rightarrow> 'p kstate" where
  "log_event e s = s\<lparr>events := events s @ [e]\<rparr>"

subsection \<open>Task state\<close>

definition task_set_state :: "'p kstate \<Rightarrow> ptr \<Rightarrow> TaskState \<Rightarrow> fault + 'p kstate" where
  "task_set_state s task st =
     (if \<not> ASSERT_ATOMIC s then Inl AssertionFailed
      else case tasks s task of
        None \<Rightarrow> Inl InvalidPointer
      | Some T \<Rightarrow>
          let s1 = log_event (Scheduler_did_change_task_state task (task_state T) st) s
          in Inr (s1\<lparr>tasks := (tasks s1)(task \<mapsto> T\<lparr>task_state := st\<rparr>)\<rparr>))"

definition task_cancel :: "'p kstate \<Rightarrow> ptr \<Rightarrow> 32 word \<Rightarrow> fault + (Result \<times> 'p kstate)" where
  "task_cancel s task exit_value =
     (if task = NULL then Inl AssertionFailed
      else
        let s1 = atomic_begin s in
        case tasks s1 task of
          None \<Rightarrow> Inl InvalidPointer
        | Some T \<Rightarrow>
            let s2 = s1\<lparr>tasks := (tasks s1)(task \<mapsto> T\<lparr>task_exit_value := exit_value\<rparr>)\<rparr> in
            (case task_set_state s2 task TASK_STATE_CANCELED of
               Inl e \<Rightarrow> Inl e
             | Inr s3 \<Rightarrow> Inr (SUCCESS, atomic_end s3)))"

fun task_by_id_loop :: "(ptr \<rightharpoonup> 'p Task) \<Rightarrow> ptr list \<Rightarrow> 32 word \<Rightarrow> fault + ptr" where
  "task_by_id_loop h [] i = Inr NULL"
| "task_by_id_loop h (task # rest) i =
     (case h task of
        None \<Rightarrow> Inl InvalidPointer
      | Some T \<Rightarrow> if task_id T = i then Inr task else task_by_id_loop h rest i)"

definition task_by_id :: "'p kstate \<Rightarrow> 32 word \<Rightarrow> fault + ptr" where
  "task_by_id s i = task_by_id_loop (tasks s) (all_tasks s) i"

subsection \<open>Blockers\<close>

text \<open>
  The function pointers \<open>can_unblock\<close> and \<open>on_unblock\<close> of a \<^verbatim>\<open>Blocker\<close> cannot be
  stored in the state they act on, so a blocker is passed as its address together
  with its \<open>BlockerOps\<close>. Both functions take the blocker and the task, as in C;
  \<open>on_unblock\<close> is optional.
\<close>

record 'p BlockerOps =
  can_unblock :: "'p kstate \<Rightarrow> ptr \<Rightarrow> ptr \<Rightarrow> fault + bool"
  on_unblock :: "('p kstate \<Rightarrow> ptr \<Rightarrow> ptr \<Rightarrow> fault + 'p kstate) option"

datatype 'p blocked = Returned BlockerResult "'p kstate" | Suspended "'p kstate"

text \<open>x86 is little-endian: the bytes of a 32-bit value, lowest first.\<close>

definition bytes_of_word :: "32 word \<Rightarrow> byte list" where
  "bytes_of_word w = [ucast w, ucast (drop_bit 8 w), ucast (drop_bit 16 w), ucast (drop_bit 24 w)]"

definition memcpy :: "(uintptr \<Rightarrow> byte) \<Rightarrow> uintptr \<Rightarrow> byte list \<Rightarrow> (uintptr \<Rightarrow> byte)" where
  "memcpy mem dst bs = (\<lambda>a. if unat (a - dst) < length bs then bs ! unat (a - dst) else mem a)"

text \<open>
  Modelled from the spec: the blocker factories \<^verbatim>\<open>blocker_time_create\<close> and
  \<^verbatim>\<open>blocker_wait_create\<close> are outside the file. \<open>blocker_time(deadline)\<close> can unblock
  when the current tick has reached the deadline and has no hook;
  \<open>blocker_wait(target, out)\<close> can unblock when the target's state is \<open>CANCELED\<close>,
  and its hook writes the target's exit value to \<open>out\<close>. \<^verbatim>\<open>__create\<close> zero-fills
  the header.
\<close>

definition blocker_time_create :: "'p kstate \<Rightarrow> 32 word \<Rightarrow> ptr \<times> 'p kstate" where
  "blocker_time_create s wakeup_tick =
     (let (b, s1) = malloc s
      in (b, s1\<lparr>blockers := (blockers s1)(b \<mapsto>
                 \<lparr>blocker_result = BLOCKER_UNBLOCKED, blocker_timeout = 0,
                  blocker_kind = BlockerTime wakeup_tick\<rparr>)\<rparr>))"

definition blocker_time_ops :: "'p env \<Rightarrow> 'p BlockerOps" where
  "blocker_time_ops E =
     \<lparr>can_unblock = (\<lambda>s b task. case blockers s b of
                        None \<Rightarrow> Inl InvalidPointer
                      | Some B \<Rightarrow> (case blocker_kind B of
                            BlockerTime wakeup_tick \<Rightarrow> Inr (wakeup_tick \<le> system_get_tick E s)
                          | BlockerWait _ _ \<Rightarrow> Inl InvalidPointer)),
      on_unblock = None\<rparr>"

definition blocker_wait_create :: "'p kstate \<Rightarrow> ptr \<Rightarrow> uintptr \<Rightarrow> ptr \<times> 'p kstate" where
  "blocker_wait_create s target exit_value =
     (let (b, s1) = malloc s
      in (b, s1\<lparr>blockers := (blockers s1)(b \<mapsto>
                 \<lparr>blocker_result = BLOCKER_UNBLOCKED, blocker_timeout = 0,
                  blocker_kind = BlockerWait target exit_value\<rparr>)\<rparr>))"

definition blocker_wait_ops :: "'p BlockerOps" where
  "blocker_wait_ops =
     \<lparr>can_unblock = (\<lambda>s b task. case blockers s b of
                        None \<Rightarrow> Inl InvalidPointer
                      | Some B \<Rightarrow> (case blocker_kind B of
                            BlockerTime _ \<Rightarrow> Inl InvalidPointer
                          | BlockerWait target _ \<Rightarrow> (case tasks s target of
                                None \<Rightarrow> Inl InvalidPointer
                              | Some T \<Rightarrow> Inr (task_state T = TASK_STATE_CANCELED)))),
      on_unblock = Some (\<lambda>s b task. case blockers s b of
                        None \<Rightarrow> Inl InvalidPointer
                      | Some B \<Rightarrow> (case blocker_kind B of
                            BlockerTime _ \<Rightarrow> Inl InvalidPointer
                          | BlockerWait target exit_value \<Rightarrow> (case tasks s target of
                                None \<Rightarrow> Inl InvalidPointer
                              | Some T \<Rightarrow>
                                  Inr (s\<lparr>memory := memcpy (memory s) exit_value
                                                     (bytes_of_word (task_exit_value T))\<rparr>))))\<rparr>"

text \<open>
  \<open>task_block\<close>, in the three parts a claim can name: installing the blocker
  (the assertion, \<^verbatim>\<open>atomic_begin\<close> and the store to the slot), the rest up to
  the return of the fast path or the yield, and the part after the yield.
\<close>

definition task_block_install :: "'p kstate \<Rightarrow> ptr \<Rightarrow> ptr \<Rightarrow> fault + 'p kstate" where
  "task_block_install s task blocker =
     (case tasks s task of
        None \<Rightarrow> Inl InvalidPointer
      | Some T \<Rightarrow>
          if task_blocker T \<noteq> NULL then Inl AssertionFailed
          else
            let s1 = atomic_begin s
            in Inr (s1\<lparr>tasks := (tasks s1)(task \<mapsto> T\<lparr>task_blocker := blocker\<rparr>)\<rparr>))"

definition task_block_unblock ::
  "'p BlockerOps \<Rightarrow> 'p kstate \<Rightarrow> ptr \<Rightarrow> ptr \<Rightarrow> fault + 'p kstate" where
  "task_block_unblock ops s2 task blocker =
     (case (case on_unblock ops of None \<Rightarrow> Inr s2 | Some hook \<Rightarrow> hook s2 blocker task) of
        Inl e \<Rightarrow> Inl e
      | Inr s3 \<Rightarrow>
          (case tasks s3 task of
             None \<Rightarrow> Inl InvalidPointer
           | Some T3 \<Rightarrow>
               let s4 = s3\<lparr>tasks := (tasks s3)(task \<mapsto> T3\<lparr>task_blocker := NULL\<rparr>)\<rparr> in
               (case blockers s4 blocker of
                  None \<Rightarrow> Inl InvalidPointer
                | Some _ \<Rightarrow> Inr (atomic_end (s4\<lparr>blockers := (blockers s4)(blocker := None)\<rparr>)))))"

definition task_block_enter ::
  "'p env \<Rightarrow> 'p BlockerOps \<Rightarrow> 'p kstate \<Rightarrow> ptr \<Rightarrow> ptr \<Rightarrow> 32 word \<Rightarrow> fault + 'p blocked" where
  "task_block_enter E ops s task blocker timeout =
     (case task_block_install s task blocker of
        Inl e \<Rightarrow> Inl e
      | Inr s2 \<Rightarrow>
          (case blockers s2 blocker of
             None \<Rightarrow> Inl InvalidPointer
           | Some B \<Rightarrow>
               (case can_unblock ops s2 blocker task of
                  Inl e \<Rightarrow> Inl e
                | Inr unblock \<Rightarrow>
                    if unblock then
                      (case task_block_unblock ops s2 task blocker of
                         Inl e \<Rightarrow> Inl e
                       | Inr s5 \<Rightarrow> Inr (Returned BLOCKER_UNBLOCKED s5))
                    else
                      let s3 = s2\<lparr>blockers := (blockers s2)(blocker \<mapsto>
                                  B\<lparr>blocker_timeout :=
                                      (if timeout = - 1 then - 1
                                       else system_get_tick E s2 + timeout)\<rparr>)\<rparr> in
                      (case task_set_state s3 task TASK_STATE_BLOCKED of
                         Inl e \<Rightarrow> Inl e
                       | Inr s4 \<Rightarrow> Inr (Suspended (atomic_end s4))))))"

definition task_block_resume :: "'p kstate \<Rightarrow> ptr \<Rightarrow> ptr \<Rightarrow> fault + (BlockerResult \<times> 'p kstate)" where
  "task_block_resume s task blocker =
     (case blockers s blocker of
        None \<Rightarrow> Inl InvalidPointer
      | Some B \<Rightarrow>
          let s1 = s\<lparr>blockers := (blockers s)(blocker := None)\<rparr> in
          (case tasks s1 task of
             None \<Rightarrow> Inl InvalidPointer
           | Some T \<Rightarrow>
               Inr (blocker_result B,
                    s1\<lparr>tasks := (tasks s1)(task \<mapsto> T\<lparr>task_blocker := NULL\<rparr>)\<rparr>)))"

definition task_block ::
  "'p env \<Rightarrow> 'p BlockerOps \<Rightarrow> 'p kstate \<Rightarrow> ptr \<Rightarrow> ptr \<Rightarrow> 32 word
     \<Rightarrow> fault + (BlockerResult \<times> 'p kstate)" where
  "task_block E ops s task blocker timeout =
     (case task_block_enter E ops s task blocker timeout of
        Inl e \<Rightarrow> Inl e
      | Inr (Returned r s') \<Rightarrow> Inr (r, s')
      | Inr (Suspended s') \<Rightarrow>
          (case scheduler_yield E s' of
             None \<Rightarrow> Inl NeverResumed
           | Some s'' \<Rightarrow> task_block_resume s'' task blocker))"

definition task_sleep :: "'p env \<Rightarrow> 'p kstate \<Rightarrow> ptr \<Rightarrow> 32 word \<Rightarrow> fault + (Result \<times> 'p kstate)" where
  "task_sleep E s task timeout =
     (let (b, s1) = blocker_time_create s (system_get_tick E s + timeout)
      in case task_block E (blocker_time_ops E) s1 task b (- 1) of
           Inl e \<Rightarrow> Inl e
         | Inr (r, s2) \<Rightarrow> Inr (TIMEOUT, s2))"

text \<open>
  C leaves open in which order the two arguments \<^verbatim>\<open>scheduler_running()\<close> and
  \<^verbatim>\<open>blocker_wait_create(task, exit_value)\<close> of the call to \<open>task_block\<close> are
  evaluated. \<open>running_first\<close> is the compiler's choice: the scheduler is asked
  for the running task before the blocker is created, or after.
\<close>

definition task_wait ::
  "'p env \<Rightarrow> bool \<Rightarrow> 'p kstate \<Rightarrow> 32 word \<Rightarrow> uintptr \<Rightarrow> fault + (Result \<times> 'p kstate)" where
  "task_wait E running_first s i exit_value =
     (let s1 = atomic_begin s in
      case task_by_id s1 i of
        Inl e \<Rightarrow> Inl e
      | Inr task \<Rightarrow>
          if task = NULL then Inr (ERR_NO_SUCH_TASK, atomic_end s1)
          else
            let s2 = atomic_end s1;
                (b, s3) = blocker_wait_create s2 task exit_value;
                running = scheduler_running E (if running_first then s2 else s3)
            in (case task_block E blocker_wait_ops s3 running b (- 1) of
                  Inl e \<Rightarrow> Inl e
                | Inr (r, s4) \<Rightarrow> Inr (SUCCESS, s4)))"

text \<open>
  The equivalence of the data model between the blocker slot and the state of a
  task: the slot is non-empty exactly when the task is \<open>BLOCKED\<close>.
\<close>

definition blocker_equivalence :: "'p Task \<Rightarrow> bool" where
  "blocker_equivalence T = ((task_blocker T \<noteq> NULL) = (task_state T = TASK_STATE_BLOCKED))"

subsection \<open>Creating tasks\<close>

definition task_set_entry :: "'p kstate \<Rightarrow> ptr \<Rightarrow> uintptr \<Rightarrow> bool \<Rightarrow> fault + 'p kstate" where
  "task_set_entry s task entry user =
     (case tasks s task of
        None \<Rightarrow> Inl InvalidPointer
      | Some T \<Rightarrow> Inr (s\<lparr>tasks := (tasks s)(task \<mapsto> T\<lparr>task_entry := entry, task_user := user\<rparr>)\<rparr>))"

text \<open>The value pushed is given as its bytes; \<open>size\<close> is their number.\<close>

definition task_stack_push :: "'p kstate \<Rightarrow> ptr \<Rightarrow> byte list \<Rightarrow> fault + (uintptr \<times> 'p kstate)" where
  "task_stack_push s task bs =
     (case tasks s task of
        None \<Rightarrow> Inl InvalidPointer
      | Some T \<Rightarrow>
          let sp = task_stack_pointer T - word_of_nat (length bs)
          in Inr (sp, s\<lparr>tasks := (tasks s)(task \<mapsto> T\<lparr>task_stack_pointer := sp\<rparr>),
                        memory := memcpy (memory s) sp bs\<rparr>))"

text \<open>
  \<open>task_create\<close>. \<^verbatim>\<open>__create\<close> zero-fills the task, \<^verbatim>\<open>strlcpy\<close> keeps at most
  \<open>PROCESS_NAME_SIZE - 1\<close> characters of the name, \<^verbatim>\<open>path_clone\<close> copies a path
  value, and \<^verbatim>\<open>memory_alloc\<close> with \<^verbatim>\<open>MEMORY_CLEAR\<close> hands out a zeroed stack.
\<close>

definition task_create ::
  "'p env \<Rightarrow> 'p kstate \<Rightarrow> ptr \<Rightarrow> string \<Rightarrow> bool \<Rightarrow> fault + (ptr \<times> 'p kstate)" where
  "task_create E s parent name user =
     (if \<not> ASSERT_ATOMIC s then Inl AssertionFailed
      else
        let (task, s1) = malloc s;
            pdir = (if user then memory_pdir_create E s1 else memory_kpdir E);
            s2 = (if user then log_event (Memory_pdir_create pdir) s1 else s1)
        in case (if parent \<noteq> NULL
                 then (case tasks s2 parent of
                         None \<Rightarrow> Inl InvalidPointer
                       | Some P \<Rightarrow> Inr (task_cwd_path P))
                 else Inr (path_create E ''/'')) of
             Inl e \<Rightarrow> Inl e
           | Inr cwd \<Rightarrow>
               let stack = memory_alloc E s2 pdir (PROCESS_STACK_SIZE E);
                   s3 = log_event (Memory_alloc pdir (PROCESS_STACK_SIZE E) stack) s2;
                   s4 = s3\<lparr>memory := (\<lambda>a. if a - stack < PROCESS_STACK_SIZE E then 0
                                             else memory s3 a)\<rparr>;
                   T = \<lparr>task_id = TID s4,
                        task_name = take (PROCESS_NAME_SIZE E - 1) name,
                        task_state = TASK_STATE_NONE,
                        task_user = False,
                        task_entry = 0,
                        task_pdir = pdir,
                        task_stack = stack,
                        task_stack_pointer = stack + PROCESS_STACK_SIZE E - 1,
                        task_cwd_path = cwd,
                        task_handles = replicate (PROCESS_HANDLE_COUNT E) NULL,
                        task_memory_mapping = [],
                        task_blocker = NULL,
                        task_exit_value = 0\<rparr>;
                   s5 = log_event (Arch_save_context task)
                          (s4\<lparr>TID := TID s4 + 1, tasks := (tasks s4)(task \<mapsto> T)\<rparr>)
               in Inr (task, s5\<lparr>all_tasks := all_tasks s5 @ [task]\<rparr>))"

definition task_spawn ::
  "'p env \<Rightarrow> 'p kstate \<Rightarrow> ptr \<Rightarrow> string \<Rightarrow> uintptr \<Rightarrow> uintptr \<Rightarrow> bool
     \<Rightarrow> fault + (ptr \<times> 'p kstate)" where
  "task_spawn E s parent name entry arg user =
     (if \<not> ASSERT_ATOMIC s then Inl AssertionFailed
      else case task_create E s parent name user of
        Inl e \<Rightarrow> Inl e
      | Inr (task, s1) \<Rightarrow>
          (case task_set_entry s1 task entry user of
             Inl e \<Rightarrow> Inl e
           | Inr s2 \<Rightarrow>
               (case task_stack_push s2 task (bytes_of_word arg) of
                  Inl e \<Rightarrow> Inl e
                | Inr (_, s3) \<Rightarrow> Inr (task, s3))))"

text \<open>
  \<open>argv\<close> is the list of the strings before the terminating null pointer; a
  string is pushed with its terminating zero byte. The loop of
  \<open>task_spawn_with_argv\<close> stops at the null pointer or at \<open>PROCESS_ARG_COUNT\<close>.
\<close>

definition cstring :: "string \<Rightarrow> byte list" where
  "cstring str = map of_char str @ [0]"

fun push_argv :: "'p kstate \<Rightarrow> ptr \<Rightarrow> string list \<Rightarrow> fault + (uintptr list \<times> 'p kstate)" where
  "push_argv s task [] = Inr ([], s)"
| "push_argv s task (a # rest) =
     (case task_stack_push s task (cstring a) of
        Inl e \<Rightarrow> Inl e
      | Inr (addr, s1) \<Rightarrow>
          (case push_argv s1 task rest of
             Inl e \<Rightarrow> Inl e
           | Inr (addrs, s2) \<Rightarrow> Inr (addr # addrs, s2)))"

definition task_spawn_with_argv ::
  "'p env \<Rightarrow> 'p kstate \<Rightarrow> ptr \<Rightarrow> string \<Rightarrow> uintptr \<Rightarrow> string list \<Rightarrow> bool
     \<Rightarrow> fault + (ptr \<times> 'p kstate)" where
  "task_spawn_with_argv E s parent name entry argv user =
     (let s0 = atomic_begin s in
      case task_create E s0 parent name user of
        Inl e \<Rightarrow> Inl e
      | Inr (task, s1) \<Rightarrow>
          (case task_set_entry s1 task entry True of
             Inl e \<Rightarrow> Inl e
           | Inr s2 \<Rightarrow>
               (case push_argv s2 task (take (PROCESS_ARG_COUNT E) argv) of
                  Inl e \<Rightarrow> Inl e
                | Inr (addrs, s3) \<Rightarrow>
                    let argc = length addrs;
                        argv_list = addrs @ replicate (PROCESS_ARG_COUNT E - argc) 0
                    in (case task_stack_push s3 task (concat (map bytes_of_word argv_list)) of
                          Inl e \<Rightarrow> Inl e
                        | Inr (argv_list_ref, s4) \<Rightarrow>
                            (case task_stack_push s4 task (bytes_of_word argv_list_ref) of
                               Inl e \<Rightarrow> Inl e
                             | Inr (_, s5) \<Rightarrow>
                                 (case task_stack_push s5 task (bytes_of_word (word_of_nat argc)) of
                                    Inl e \<Rightarrow> Inl e
                                  | Inr (_, s6) \<Rightarrow> Inr (task, atomic_end s6)))))))"

subsection \<open>Shared memory\<close>

definition memory_object_create :: "'p env \<Rightarrow> 'p kstate \<Rightarrow> 32 word \<Rightarrow> ptr \<times> 'p kstate" where
  "memory_object_create E s size0 =
     (let size = PAGE_ALIGN_UP E size0;
          (memory_object, s1) = malloc s;
          address = physical_alloc E s1 (size div PAGE_SIZE E);
          s2 = log_event (Physical_alloc (size div PAGE_SIZE E) address) s1
      in (memory_object,
          s2\<lparr>memory_object_id := memory_object_id s2 + 1,
             objects := (objects s2)(memory_object \<mapsto>
                \<lparr>object_id = memory_object_id s2, object_refcount = 1,
                 object_address = address, object_size = size\<rparr>),
             memory_objects := memory_objects s2 @ [memory_object]\<rparr>))"

text \<open>\<^verbatim>\<open>list_remove\<close> takes the first node that holds the pointer out of the list.\<close>

definition memory_object_destroy :: "'p env \<Rightarrow> 'p kstate \<Rightarrow> ptr \<Rightarrow> fault + 'p kstate" where
  "memory_object_destroy E s memory_object =
     (case objects s memory_object of
        None \<Rightarrow> Inl InvalidPointer
      | Some obj \<Rightarrow>
          let s1 = s\<lparr>memory_objects := remove1 memory_object (memory_objects s)\<rparr>;
              s2 = log_event (Physical_free (object_address obj)
                                (PAGE_ALIGN_UP E (object_size obj) div PAGE_SIZE E)) s1
          in Inr (s2\<lparr>objects := (objects s2)(memory_object := None)\<rparr>))"

definition memory_object_ref :: "'p kstate \<Rightarrow> ptr \<Rightarrow> fault + 'p kstate" where
  "memory_object_ref s memory_object =
     (case objects s memory_object of
        None \<Rightarrow> Inl InvalidPointer
      | Some obj \<Rightarrow>
          Inr (s\<lparr>objects := (objects s)(memory_object \<mapsto>
                    obj\<lparr>object_refcount := object_refcount obj + 1\<rparr>)\<rparr>))"

definition memory_object_deref :: "'p env \<Rightarrow> 'p kstate \<Rightarrow> ptr \<Rightarrow> fault + 'p kstate" where
  "memory_object_deref E s memory_object =
     (case objects s memory_object of
        None \<Rightarrow> Inl InvalidPointer
      | Some obj \<Rightarrow>
          let s1 = s\<lparr>objects := (objects s)(memory_object \<mapsto>
                       obj\<lparr>object_refcount := object_refcount obj - 1\<rparr>)\<rparr>
          in if object_refcount obj - 1 = 0 then memory_object_destroy E s1 memory_object
             else Inr s1)"

fun memory_object_by_id_loop ::
  "(ptr \<rightharpoonup> MemoryObject) \<Rightarrow> ptr list \<Rightarrow> 32 word \<Rightarrow> fault + ptr" where
  "memory_object_by_id_loop h [] i = Inr NULL"
| "memory_object_by_id_loop h (memory_object # rest) i =
     (case h memory_object of
        None \<Rightarrow> Inl InvalidPointer
      | Some obj \<Rightarrow> if object_id obj = i then Inr memory_object
                    else memory_object_by_id_loop h rest i)"

definition memory_object_by_id :: "'p kstate \<Rightarrow> 32 word \<Rightarrow> fault + (ptr \<times> 'p kstate)" where
  "memory_object_by_id s i =
     (case memory_object_by_id_loop (objects s) (memory_objects s) i of
        Inl e \<Rightarrow> Inl e
      | Inr memory_object \<Rightarrow>
          if memory_object = NULL then Inr (NULL, s)
          else (case memory_object_ref s memory_object of
                  Inl e \<Rightarrow> Inl e
                | Inr s1 \<Rightarrow> Inr (memory_object, s1)))"

definition task_memory_mapping_create ::
  "'p env \<Rightarrow> 'p kstate \<Rightarrow> ptr \<Rightarrow> ptr \<Rightarrow> fault + (ptr \<times> 'p kstate)" where
  "task_memory_mapping_create E s task memory_object =
     (let (memory_mapping, s1) = malloc s in
      case memory_object_ref s1 memory_object of
        Inl e \<Rightarrow> Inl e
      | Inr s2 \<Rightarrow>
          (case tasks s2 task of
             None \<Rightarrow> Inl InvalidPointer
           | Some T \<Rightarrow>
               (case objects s2 memory_object of
                  None \<Rightarrow> Inl InvalidPointer
                | Some obj \<Rightarrow>
                    let address = virtual_alloc E s2 (task_pdir T) (object_address obj)
                                    (object_size obj);
                        s3 = log_event (Virtual_alloc (task_pdir T) (object_address obj)
                                          (object_size obj) address) s2
                    in Inr (memory_mapping,
                            s3\<lparr>mappings := (mappings s3)(memory_mapping \<mapsto>
                                  \<lparr>mapping_object = memory_object, mapping_address = address,
                                   mapping_size = object_size obj\<rparr>),
                               tasks := (tasks s3)(task \<mapsto>
                                  T\<lparr>task_memory_mapping :=
                                      task_memory_mapping T @ [memory_mapping]\<rparr>)\<rparr>))))"

definition task_memory_mapping_destroy ::
  "'p env \<Rightarrow> 'p kstate \<Rightarrow> ptr \<Rightarrow> ptr \<Rightarrow> fault + 'p kstate" where
  "task_memory_mapping_destroy E s task memory_mapping =
     (case tasks s task of
        None \<Rightarrow> Inl InvalidPointer
      | Some T \<Rightarrow>
          (case mappings s memory_mapping of
             None \<Rightarrow> Inl InvalidPointer
           | Some M \<Rightarrow>
               let s1 = log_event (Virtual_free (task_pdir T) (mapping_address M)
                                     (mapping_size M)) s
               in (case memory_object_deref E s1 (mapping_object M) of
                     Inl e \<Rightarrow> Inl e
                   | Inr s2 \<Rightarrow>
                       Inr (s2\<lparr>tasks := (tasks s2)(task \<mapsto>
                                  T\<lparr>task_memory_mapping :=
                                      remove1 memory_mapping (task_memory_mapping T)\<rparr>),
                               mappings := (mappings s2)(memory_mapping := None)\<rparr>))))"

fun task_memory_mapping_by_address_loop ::
  "(ptr \<rightharpoonup> MemoryMapping) \<Rightarrow> ptr list \<Rightarrow> uintptr \<Rightarrow> fault + ptr" where
  "task_memory_mapping_by_address_loop h [] address = Inr NULL"
| "task_memory_mapping_by_address_loop h (memory_mapping # rest) address =
     (case h memory_mapping of
        None \<Rightarrow> Inl InvalidPointer
      | Some M \<Rightarrow> if mapping_address M = address then Inr memory_mapping
                  else task_memory_mapping_by_address_loop h rest address)"

definition task_memory_mapping_by_address :: "'p kstate \<Rightarrow> ptr \<Rightarrow> uintptr \<Rightarrow> fault + ptr" where
  "task_memory_mapping_by_address s task address =
     (case tasks s task of
        None \<Rightarrow> Inl InvalidPointer
      | Some T \<Rightarrow>
          task_memory_mapping_by_address_loop (mappings s) (task_memory_mapping T) address)"

text \<open>The user-facing calls return their \<open>out\<close> arguments next to the result.\<close>

definition task_shared_memory_alloc ::
  "'p env \<Rightarrow> 'p kstate \<Rightarrow> ptr \<Rightarrow> 32 word \<Rightarrow> fault + (Result \<times> uintptr \<times> 'p kstate)" where
  "task_shared_memory_alloc E s task size0 =
     (let (memory_object, s1) = memory_object_create E s size0 in
      case task_memory_mapping_create E s1 task memory_object of
        Inl e \<Rightarrow> Inl e
      | Inr (memory_mapping, s2) \<Rightarrow>
          (case memory_object_deref E s2 memory_object of
             Inl e \<Rightarrow> Inl e
           | Inr s3 \<Rightarrow>
               (case mappings s3 memory_mapping of
                  None \<Rightarrow> Inl InvalidPointer
                | Some M \<Rightarrow> Inr (SUCCESS, mapping_address M, s3))))"

definition task_shared_memory_free ::
  "'p env \<Rightarrow> 'p kstate \<Rightarrow> ptr \<Rightarrow> uintptr \<Rightarrow> fault + (Result \<times> 'p kstate)" where
  "task_shared_memory_free E s task address =
     (case task_memory_mapping_by_address s task address of
        Inl e \<Rightarrow> Inl e
      | Inr memory_mapping \<Rightarrow>
          if memory_mapping = NULL then Inr (ERR_BAD_ADDRESS, s)
          else (case task_memory_mapping_destroy E s task memory_mapping of
                  Inl e \<Rightarrow> Inl e
                | Inr s1 \<Rightarrow> Inr (SUCCESS, s1)))"

definition task_shared_memory_include ::
  "'p env \<Rightarrow> 'p kstate \<Rightarrow> ptr \<Rightarrow> 32 word
     \<Rightarrow> fault + (Result \<times> (uintptr \<times> 32 word) option \<times> 'p kstate)" where
  "task_shared_memory_include E s task handle =
     (case memory_object_by_id s handle of
        Inl e \<Rightarrow> Inl e
      | Inr (memory_object, s1) \<Rightarrow>
          if memory_object = NULL then Inr (ERR_BAD_ADDRESS, None, s1)
          else (case task_memory_mapping_create E s1 task memory_object of
                  Inl e \<Rightarrow> Inl e
                | Inr (memory_mapping, s2) \<Rightarrow>
                    (case memory_object_deref E s2 memory_object of
                       Inl e \<Rightarrow> Inl e
                     | Inr s3 \<Rightarrow>
                         (case mappings s3 memory_mapping of
                            None \<Rightarrow> Inl InvalidPointer
                          | Some M \<Rightarrow>
                              Inr (SUCCESS, Some (mapping_address M, mapping_size M), s3)))))"

definition task_shared_memory_get_handle ::
  "'p kstate \<Rightarrow> ptr \<Rightarrow> uintptr \<Rightarrow> fault + (Result \<times> 32 word option)" where
  "task_shared_memory_get_handle s task address =
     (case task_memory_mapping_by_address s task address of
        Inl e \<Rightarrow> Inl e
      | Inr memory_mapping \<Rightarrow>
          if memory_mapping = NULL then Inr (ERR_BAD_ADDRESS, None)
          else (case mappings s memory_mapping of
                  None \<Rightarrow> Inl InvalidPointer
                | Some M \<Rightarrow>
                    (case objects s (mapping_object M) of
                       None \<Rightarrow> Inl InvalidPointer
                     | Some obj \<Rightarrow> Inr (SUCCESS, Some (object_id obj)))))"

text \<open>
  The reference counts of the data model. The mappings that reference an object
  are the live \<open>MemoryMapping\<close> records whose \<open>object\<close> field points to it; they
  are found below the top of the heap. In \<open>refcount_invariant s temp\<close> the
  registry has no duplicates, every live mapping references a registered object,
  and the \<open>refcount\<close> of every registered object is the number of mappings that
  reference it plus the \<open>temp\<close> references held for it in calls under way.
\<close>

definition mappings_of_object :: "'p kstate \<Rightarrow> ptr \<Rightarrow> ptr list" where
  "mappings_of_object s memory_object =
     filter (\<lambda>m. case mappings s m of
                    None \<Rightarrow> False
                  | Some M \<Rightarrow> mapping_object M = memory_object)
            [0..<Suc (heap_top s)]"

definition object_references :: "'p kstate \<Rightarrow> ptr \<Rightarrow> ptr set" where
  "object_references s memory_object =
     {m. \<exists>M. mappings s m = Some M \<and> mapping_object M = memory_object}"

definition refcount_invariant :: "'p kstate \<Rightarrow> (ptr \<Rightarrow> nat) \<Rightarrow> bool" where
  "refcount_invariant s temp =
     (distinct (memory_objects s) \<and>
      (\<forall>m. heap_top s < m \<longrightarrow> mappings s m = None) \<and>
      (\<forall>m M. mappings s m = Some M \<longrightarrow> mapping_object M \<in> set (memory_objects s)) \<and>
      (\<forall>memory_object \<in> set (memory_objects s).
         memory_object \<le> heap_top s \<and>
         (case objects s memory_object of
            None \<Rightarrow> False
          | Some obj \<Rightarrow>
              object_refcount obj =
                int (length (mappings_of_object s memory_object)) + int (temp memory_object))))"

subsection \<open>Destroying tasks\<close>

text \<open>
  Modelled from the spec: \<^verbatim>\<open>list_foreach\<close> is a macro of the list library, outside
  the file. In \<open>task_destroy\<close>, which removes each mapping from the list it walks,
  the loop destroys all memory mappings: it visits every element the list holds
  when the loop starts.
\<close>

fun destroy_memory_mappings ::
  "'p env \<Rightarrow> 'p kstate \<Rightarrow> ptr \<Rightarrow> ptr list \<Rightarrow> fault + 'p kstate" where
  "destroy_memory_mappings E s task [] = Inr s"
| "destroy_memory_mappings E s task (memory_mapping # rest) =
     (case task_memory_mapping_destroy E s task memory_mapping of
        Inl e \<Rightarrow> Inl e
      | Inr s1 \<Rightarrow> destroy_memory_mappings E s1 task rest)"

definition task_destroy :: "'p env \<Rightarrow> 'p kstate \<Rightarrow> ptr \<Rightarrow> fault + 'p kstate" where
  "task_destroy E s task =
     (let s1 = atomic_begin s in
      case tasks s1 task of
        None \<Rightarrow> Inl InvalidPointer
      | Some T \<Rightarrow>
          (case (if task_state T \<noteq> TASK_STATE_NONE
                 then task_set_state s1 task TASK_STATE_NONE else Inr s1) of
             Inl e \<Rightarrow> Inl e
           | Inr s2 \<Rightarrow>
               let s3 = atomic_end (s2\<lparr>all_tasks := remove1 task (all_tasks s2)\<rparr>) in
               (case destroy_memory_mappings E s3 task (task_memory_mapping T) of
                  Inl e \<Rightarrow> Inl e
                | Inr s4 \<Rightarrow>
                    (case tasks s4 task of
                       None \<Rightarrow> Inl InvalidPointer
                     | Some T4 \<Rightarrow>
                         let s5 = log_event (Task_fshandle_close_all task) s4;
                             s6 = log_event (Memory_free (task_pdir T4) (task_stack T4)
                                               (PROCESS_STACK_SIZE E)) s5;
                             s7 = (if task_pdir T4 \<noteq> memory_kpdir E
                                   then log_event (Memory_pdir_destroy (task_pdir T4)) s6
                                   else s6)
                         in Inr (s7\<lparr>tasks := (tasks s7)(task := None)\<rparr>)))))"

subsection \<open>Current working directory\<close>

definition task_cwd_resolve :: "'p env \<Rightarrow> 'p kstate \<Rightarrow> ptr \<Rightarrow> string \<Rightarrow> fault + 'p" where
  "task_cwd_resolve E s task buffer =
     (let path = path_create E buffer in
      if path_is_relative E path
      then (case tasks s task of
              None \<Rightarrow> Inl InvalidPointer
            | Some T \<Rightarrow> Inr (path_normalize E (path_combine E (task_cwd_path T) path)))
      else Inr (path_normalize E path))"

definition task_set_cwd :: "'p env \<Rightarrow> 'p kstate \<Rightarrow> ptr \<Rightarrow> string \<Rightarrow> fault + (Result \<times> 'p kstate)" where
  "task_set_cwd E s task buffer =
     (case task_cwd_resolve E s task buffer of
        Inl e \<Rightarrow> Inl e
      | Inr path \<Rightarrow>
          (case filesystem_find_and_ref E s path of
             None \<Rightarrow> Inr (ERR_NO_SUCH_FILE_OR_DIRECTORY, s)
           | Some (node, type) \<Rightarrow>
               let s1 = log_event (Filesystem_find_and_ref node) s in
               if type \<noteq> FILE_TYPE_DIRECTORY
               then Inr (ERR_NOT_A_DIRECTORY, log_event (Fsnode_deref node) s1)
               else (case tasks s1 task of
                       None \<Rightarrow> Inl InvalidPointer
                     | Some T \<Rightarrow>
                         let s2 = s1\<lparr>tasks := (tasks s1)(task \<mapsto> T\<lparr>task_cwd_path := path\<rparr>)\<rparr>
                         in Inr (SUCCESS, log_event (Fsnode_deref node) s2))))"

section \<open>A small kernel state\<close>

text \<open>
  A state and an environment on which the functions are run on concrete input.
  Task 1 runs and maps the memory object 6 through the mapping 7, task 2 is
  blocked on the time blocker 3, task 4 is cancelled with exit value 42; the wait
  blocker 5 (for task 4) is created but not installed. Paths are kept as their
  text; the tick stands at 1000 and no yield ever returns.
\<close>

definition ex_task :: "32 word \<Rightarrow> TaskState \<Rightarrow> ptr \<Rightarrow> ptr list \<Rightarrow> 32 word \<Rightarrow> string Task" where
  "ex_task i st b ms v =
     \<lparr>task_id = i, task_name = ''task'', task_state = st, task_user = False,
      task_entry = 0, task_pdir = 100, task_stack = 4096, task_stack_pointer = 8191,
      task_cwd_path = ''/home'', task_handles = [], task_memory_mapping = ms,
      task_blocker = b, task_exit_value = v\<rparr>"

definition ex_state :: "string kstate" where
  "ex_state =
     \<lparr>TID = 3, all_tasks = [1, 2, 4],
      tasks = [1 \<mapsto> ex_task 0 TASK_STATE_RUNNING NULL [7] 0,
               2 \<mapsto> ex_task 1 TASK_STATE_BLOCKED 3 [] 0,
               4 \<mapsto> ex_task 2 TASK_STATE_CANCELED NULL [] 42],
      blockers = [3 \<mapsto> \<lparr>blocker_result = BLOCKER_UNBLOCKED, blocker_timeout = - 1,
                          blocker_kind = BlockerTime 5000\<rparr>,
                  5 \<mapsto> \<lparr>blocker_result = BLOCKER_UNBLOCKED, blocker_timeout = 0,
                          blocker_kind = BlockerWait 4 12288\<rparr>],
      memory_object_id = 1, memory_objects = [6],
      objects = [6 \<mapsto> \<lparr>object_id = 0, object_refcount = 1, object_address = 2097152,
                         object_size = 4096\<rparr>],
      mappings = [7 \<mapsto> \<lparr>mapping_object = 6, mapping_address = 1073741824,
                          mapping_size = 4096\<rparr>],
      heap_top = 7, memory = (\<lambda>_. 0), atomic_depth = 0, events = []\<rparr>"

definition ex_env :: "string env" where
  "ex_env =
     \<lparr>memory_kpdir = 100,
      memory_pdir_create = (\<lambda>s. 101),
      memory_alloc = (\<lambda>s pdir size. 65536),
      physical_alloc = (\<lambda>s n. 4194304),
      virtual_alloc = (\<lambda>s pdir address size. 1342177280),
      system_get_tick = (\<lambda>s. 1000),
      scheduler_running = (\<lambda>s. 1),
      scheduler_yield = (\<lambda>s. None),
      path_create = (\<lambda>text. text),
      path_is_relative = (\<lambda>path. take 1 path \<noteq> ''/''),
      path_combine = (\<lambda>base path. base @ ''/'' @ path),
      path_normalize = (\<lambda>path. path),
      filesystem_find_and_ref =
        (\<lambda>s path. if path = ''/home/user'' then Some (9, FILE_TYPE_DIRECTORY) else None),
      PROCESS_NAME_SIZE = 128,
      PROCESS_HANDLE_COUNT = 32,
      PROCESS_STACK_SIZE = 16384,
      PROCESS_ARG_COUNT = 2,
      PAGE_SIZE = 4096,
      PAGE_ALIGN_UP = (\<lambda>x. if x mod 4096 = 0 then x else x + 4096 - x mod 4096)\<rparr>"

section \<open>Properties\<close>

subsection \<open>Auxiliary facts\<close>

lemma atomic_end_begin: "atomic_end (atomic_begin s) = s"
  by (simp add: atomic_begin_def atomic_end_def)

lemma task_block_install_live:
  "tasks s task = Some T \<Longrightarrow> task_blocker T = NULL \<Longrightarrow>
   task_block_install s task blocker =
     Inr ((atomic_begin s)\<lparr>tasks := (tasks s)(task \<mapsto> T\<lparr>task_blocker := blocker\<rparr>)\<rparr>)"
  by (simp add: task_block_install_def atomic_begin_def)

lemma ex_state_registry:
  "\<forall>t \<in> set (all_tasks ex_state). t \<noteq> NULL \<and> tasks ex_state t \<noteq> None"
  by (simp add: ex_state_def NULL_def)

lemma task_sleep_result:
  "task_sleep E s task timeout = Inr (r, s') \<Longrightarrow> r = TIMEOUT"
  by (auto simp: task_sleep_def Let_def split: prod.splits sum.splits)

lemma task_sleep_of_block:
  "task_block E (blocker_time_ops E) (snd (blocker_time_create s (system_get_tick E s + timeout)))
      task (fst (blocker_time_create s (system_get_tick E s + timeout))) (- 1) = Inr (br, s2)
   \<Longrightarrow> task_sleep E s task timeout = Inr (TIMEOUT, s2)"
  by (auto simp: task_sleep_def Let_def split: prod.splits)

lemma task_sleep_zero:
  fixes E :: "'p env"
  assumes live: "tasks s task = Some T"
    and empty: "task_blocker T = NULL"
    and tick: "\<forall>s2. task_block_install (snd (blocker_time_create s (system_get_tick E s))) task
                      (fst (blocker_time_create s (system_get_tick E s))) = Inr s2
                 \<longrightarrow> system_get_tick E s \<le> system_get_tick E s2"
  shows "\<exists>s'. \<forall>y. task_sleep (E\<lparr>scheduler_yield := y\<rparr>) s task 0 = Inr (TIMEOUT, s')"
proof -
  obtain b s1 where c: "blocker_time_create s (system_get_tick E s) = (b, s1)"
    by (cases "blocker_time_create s (system_get_tick E s)")
  from c have t1: "tasks s1 = tasks s"
    and b1: "blockers s1 b = Some \<lparr>blocker_result = BLOCKER_UNBLOCKED, blocker_timeout = 0,
                  blocker_kind = BlockerTime (system_get_tick E s)\<rparr>"
    by (auto simp: blocker_time_create_def malloc_def Let_def)
  define s2 where "s2 = (atomic_begin s1)\<lparr>tasks := (tasks s1)(task \<mapsto> T\<lparr>task_blocker := b\<rparr>)\<rparr>"
  have install: "task_block_install s1 task b = Inr s2"
    using live empty t1 by (simp add: task_block_install_live s2_def)
  have le: "system_get_tick E s \<le> system_get_tick E s2"
    using tick c install by simp
  have b2: "blockers s2 b = Some \<lparr>blocker_result = BLOCKER_UNBLOCKED, blocker_timeout = 0,
                  blocker_kind = BlockerTime (system_get_tick E s)\<rparr>"
    using b1 by (simp add: s2_def atomic_begin_def)
  have t2: "tasks s2 task = Some (T\<lparr>task_blocker := b\<rparr>)"
    by (simp add: s2_def)
  define s' where "s' = atomic_end (s2\<lparr>tasks := (tasks s2)(task \<mapsto> T\<lparr>task_blocker := b\<rparr>\<lparr>task_blocker := NULL\<rparr>),
                                      blockers := (blockers s2)(b := None)\<rparr>)"
  have "task_sleep (E\<lparr>scheduler_yield := y\<rparr>) s task 0 = Inr (TIMEOUT, s')" for y
  proof -
    have can: "can_unblock (blocker_time_ops (E\<lparr>scheduler_yield := y\<rparr>)) s2 b task = Inr True"
      using b2 le by (simp add: blocker_time_ops_def)
    have unb: "task_block_unblock (blocker_time_ops (E\<lparr>scheduler_yield := y\<rparr>)) s2 task b = Inr s'"
      using t2 b2 by (simp add: task_block_unblock_def blocker_time_ops_def s'_def)
    have "task_block_enter (E\<lparr>scheduler_yield := y\<rparr>) (blocker_time_ops (E\<lparr>scheduler_yield := y\<rparr>))
            s1 task b (- 1) = Inr (Returned BLOCKER_UNBLOCKED s')"
      using install b2 can unb by (simp add: task_block_enter_def)
    then have "task_block (E\<lparr>scheduler_yield := y\<rparr>) (blocker_time_ops (E\<lparr>scheduler_yield := y\<rparr>))
            s1 task b (- 1) = Inr (BLOCKER_UNBLOCKED, s')"
      by (simp add: task_block_def)
    then show ?thesis
      using c by (simp add: task_sleep_def)
  qed
  then show ?thesis by blast
qed

lemma task_by_id_loop_none:
  "\<forall>t \<in> set ts. \<exists>T. h t = Some T \<and> task_id T \<noteq> i \<Longrightarrow> task_by_id_loop h ts i = Inr NULL"
  by (induction ts) auto

lemma task_by_id_loop_found:
  "\<forall>t \<in> set ts. h t \<noteq> None \<Longrightarrow> \<exists>t \<in> set ts. \<exists>T. h t = Some T \<and> task_id T = i \<Longrightarrow>
   \<exists>target T. task_by_id_loop h ts i = Inr target \<and> target \<in> set ts \<and>
              h target = Some T \<and> task_id T = i"
proof (induction ts)
  case Nil
  then show ?case by simp
next
  case (Cons a ts)
  then obtain A where A: "h a = Some A" by auto
  show ?case
  proof (cases "task_id A = i")
    case True
    with A show ?thesis by auto
  next
    case False
    with A Cons.prems have "\<exists>t \<in> set ts. \<exists>T. h t = Some T \<and> task_id T = i" by auto
    moreover from Cons.prems have "\<forall>t \<in> set ts. h t \<noteq> None" by simp
    ultimately obtain target T where "task_by_id_loop h ts i = Inr target" "target \<in> set ts"
      "h target = Some T" "task_id T = i"
      using Cons.IH by blast
    with A False show ?thesis by auto
  qed
qed

lemma blocker_wait_create_eq:
  "blocker_wait_create s target ev =
     (Suc (heap_top s),
      s\<lparr>heap_top := Suc (heap_top s),
        blockers := (blockers s)(Suc (heap_top s) \<mapsto>
           \<lparr>blocker_result = BLOCKER_UNBLOCKED, blocker_timeout = 0,
            blocker_kind = BlockerWait target ev\<rparr>)\<rparr>)"
  by (simp add: blocker_wait_create_def malloc_def)

lemma task_wait_unknown:
  assumes reg: "\<forall>t \<in> set (all_tasks s). t \<noteq> NULL \<and> tasks s t \<noteq> None"
    and none: "\<forall>t \<in> set (all_tasks s). \<forall>T. tasks s t = Some T \<longrightarrow> task_id T \<noteq> i"
  shows "task_wait E running_first s i ev = Inr (ERR_NO_SUCH_TASK, s)"
proof -
  have "\<forall>t \<in> set (all_tasks s). \<exists>T. tasks s t = Some T \<and> task_id T \<noteq> i"
    using reg none by fastforce
  then have "task_by_id_loop (tasks s) (all_tasks s) i = Inr NULL"
    by (rule task_by_id_loop_none)
  then have "task_by_id (atomic_begin s) i = Inr NULL"
    by (simp add: task_by_id_def atomic_begin_def)
  then show ?thesis
    by (simp add: task_wait_def atomic_end_begin)
qed

lemma task_wait_found:
  fixes E :: "'p env"
  assumes byid: "task_by_id s i = Inr target" and nn: "target \<noteq> NULL"
    and s3: "s3 = s\<lparr>heap_top := Suc (heap_top s),
                    blockers := (blockers s)(Suc (heap_top s) \<mapsto>
                       \<lparr>blocker_result = BLOCKER_UNBLOCKED, blocker_timeout = 0,
                        blocker_kind = BlockerWait target ev\<rparr>)\<rparr>"
  shows "task_wait E running_first s i ev =
           (case task_block E blocker_wait_ops s3
                   (scheduler_running E (if running_first then s else s3))
                   (Suc (heap_top s)) (- 1) of
              Inl e \<Rightarrow> Inl e
            | Inr (r, s4) \<Rightarrow> Inr (SUCCESS, s4))"
proof -
  have "task_by_id (atomic_begin s) i = Inr target"
    using byid by (simp add: task_by_id_def atomic_begin_def)
  then show ?thesis
    using nn by (simp add: task_wait_def atomic_end_begin blocker_wait_create_eq s3 Let_def)
qed

text \<open>The wait blocker on the two paths of \<open>task_block\<close>.\<close>

lemma task_block_wait_fast:
  fixes E :: "'p env"
  assumes R: "tasks s running = Some R" and empty: "task_blocker R = NULL"
    and T: "tasks s target = Some T" and c: "task_state T = TASK_STATE_CANCELED"
    and s3: "s3 = s\<lparr>heap_top := b,
                    blockers := (blockers s)(b \<mapsto>
                       \<lparr>blocker_result = BLOCKER_UNBLOCKED, blocker_timeout = 0,
                        blocker_kind = BlockerWait target ev\<rparr>)\<rparr>"
  shows "task_block E blocker_wait_ops s3 running b (- 1) =
           Inr (BLOCKER_UNBLOCKED,
                s\<lparr>heap_top := b,
                  memory := memcpy (memory s) ev (bytes_of_word (task_exit_value T)),
                  tasks := (tasks s)(running \<mapsto> R\<lparr>task_blocker := NULL\<rparr>),
                  blockers := (blockers s)(b := None)\<rparr>)"
proof -
  define s2 where "s2 = (atomic_begin s3)\<lparr>tasks := (tasks s3)(running \<mapsto> R\<lparr>task_blocker := b\<rparr>)\<rparr>"
  have install: "task_block_install s3 running b = Inr s2"
    using R empty by (simp add: task_block_install_live s3 s2_def)
  have b2: "blockers s2 b = Some \<lparr>blocker_result = BLOCKER_UNBLOCKED, blocker_timeout = 0,
                        blocker_kind = BlockerWait target ev\<rparr>"
    by (simp add: s2_def s3 atomic_begin_def)
  have t2: "\<exists>T2. tasks s2 target = Some T2 \<and> task_state T2 = TASK_STATE_CANCELED \<and>
               task_exit_value T2 = task_exit_value T"
    using T R c by (auto simp: s2_def s3 atomic_begin_def)
  then have can: "can_unblock blocker_wait_ops s2 b running = Inr True"
    using b2 by (auto simp: blocker_wait_ops_def)
  have hook: "(case on_unblock blocker_wait_ops of None \<Rightarrow> Inr s2
               | Some h \<Rightarrow> h s2 b running) =
        Inr (s2\<lparr>memory := memcpy (memory s2) ev (bytes_of_word (task_exit_value T))\<rparr>)"
    using b2 t2 by (auto simp: blocker_wait_ops_def)
  have unb: "task_block_unblock blocker_wait_ops s2 running b =
      Inr (s\<lparr>heap_top := b,
                  memory := memcpy (memory s) ev (bytes_of_word (task_exit_value T)),
                  tasks := (tasks s)(running \<mapsto> R\<lparr>task_blocker := NULL\<rparr>),
                  blockers := (blockers s)(b := None)\<rparr>)"
    unfolding task_block_unblock_def hook
    by (simp add: s2_def s3 atomic_begin_def atomic_end_def)
  show ?thesis
    using install b2 can unb by (simp add: task_block_def task_block_enter_def)
qed

lemma task_block_wait_slow:
  fixes E :: "'p env"
  assumes R: "tasks s running = Some R" and empty: "task_blocker R = NULL"
    and T: "tasks s target = Some T" and c: "task_state T \<noteq> TASK_STATE_CANCELED"
    and s3: "s3 = s\<lparr>heap_top := b,
                    blockers := (blockers s)(b \<mapsto>
                       \<lparr>blocker_result = BLOCKER_UNBLOCKED, blocker_timeout = 0,
                        blocker_kind = BlockerWait target ev\<rparr>)\<rparr>"
  shows "task_block_enter E blocker_wait_ops s3 running b (- 1) =
           Inr (Suspended
                (s\<lparr>heap_top := b,
                   blockers := (blockers s)(b \<mapsto>
                       \<lparr>blocker_result = BLOCKER_UNBLOCKED, blocker_timeout = - 1,
                        blocker_kind = BlockerWait target ev\<rparr>),
                   events := events s @
                     [Scheduler_did_change_task_state running (task_state R) TASK_STATE_BLOCKED],
                   tasks := (tasks s)(running \<mapsto>
                       R\<lparr>task_blocker := b, task_state := TASK_STATE_BLOCKED\<rparr>)\<rparr>))"
proof -
  define s2 where "s2 = (atomic_begin s3)\<lparr>tasks := (tasks s3)(running \<mapsto> R\<lparr>task_blocker := b\<rparr>)\<rparr>"
  have install: "task_block_install s3 running b = Inr s2"
    using R empty by (simp add: task_block_install_live s3 s2_def)
  have b2: "blockers s2 b = Some \<lparr>blocker_result = BLOCKER_UNBLOCKED, blocker_timeout = 0,
                        blocker_kind = BlockerWait target ev\<rparr>"
    by (simp add: s2_def s3 atomic_begin_def)
  have t2: "\<exists>T2. tasks s2 target = Some T2 \<and> task_state T2 \<noteq> TASK_STATE_CANCELED"
    using T R c by (auto simp: s2_def s3 atomic_begin_def)
  then have can: "can_unblock blocker_wait_ops s2 b running = Inr False"
    using b2 by (auto simp: blocker_wait_ops_def)
  show ?thesis
    using install b2 can
    by (simp add: task_block_enter_def task_set_state_def ASSERT_ATOMIC_def log_event_def
        Let_def s2_def s3 atomic_begin_def atomic_end_def)
qed


lemma task_block_wait_resumed:
  fixes E :: "'p env"
  assumes enter: "task_block_enter E ops s3 running b timeout = Inr (Suspended susp)"
  shows "(scheduler_yield E susp = None \<longrightarrow>
            task_block E ops s3 running b timeout = Inl NeverResumed) \<and>
         (\<forall>s'' B'' R''. scheduler_yield E susp = Some s'' \<and> blockers s'' b = Some B'' \<and>
              tasks s'' running = Some R'' \<longrightarrow>
            task_block E ops s3 running b timeout =
              Inr (blocker_result B'',
                   s''\<lparr>blockers := (blockers s'')(b := None),
                       tasks := (tasks s'')(running \<mapsto> R''\<lparr>task_blocker := NULL\<rparr>)\<rparr>))"
  using enter by (auto simp: task_block_def task_block_resume_def)

lemma pick_target:
  "\<exists>x y. A x \<and> B x y \<and> C y \<and> D x \<and> R x y \<Longrightarrow> (\<And>x. D x \<Longrightarrow> x = a) \<Longrightarrow>
   (\<And>y. B a y \<Longrightarrow> y = c) \<Longrightarrow> R a c"
  by blast

lemma conj_prefix: "P \<and> Q \<and> S \<Longrightarrow> P \<and> Q"
  by blast

lemma task_stack_push_live:
  "tasks s task = Some T \<Longrightarrow>
   \<exists>sp s'. task_stack_push s task bs = Inr (sp, s') \<and>
            tasks s' task = Some (T\<lparr>task_stack_pointer := sp\<rparr>) \<and>
            atomic_depth s' = atomic_depth s"
  by (simp add: task_stack_push_def Let_def)

lemma push_argv_live:
  "tasks s task = Some T \<Longrightarrow>
   \<exists>addrs s' sp. push_argv s task args = Inr (addrs, s') \<and>
                 tasks s' task = Some (T\<lparr>task_stack_pointer := sp\<rparr>) \<and>
                 length addrs = length args"
proof (induction args arbitrary: s T)
  case Nil
  have "T = T\<lparr>task_stack_pointer := task_stack_pointer T\<rparr>" by simp
  with Nil show ?case by (metis length_0_conv push_argv.simps(1))
next
  case (Cons a args)
  from task_stack_push_live [OF Cons.prems, of "cstring a"]
  obtain sp s1 where p: "task_stack_push s task (cstring a) = Inr (sp, s1)"
    and l1: "tasks s1 task = Some (T\<lparr>task_stack_pointer := sp\<rparr>)" by blast
  from Cons.IH [OF l1] obtain addrs s' sp' where
    r: "push_argv s1 task args = Inr (addrs, s')"
    and l': "tasks s' task = Some (T\<lparr>task_stack_pointer := sp\<rparr>\<lparr>task_stack_pointer := sp'\<rparr>)"
    and len: "length addrs = length args" by blast
  have "push_argv s task (a # args) = Inr (sp # addrs, s')"
    using p r by simp
  moreover have "tasks s' task = Some (T\<lparr>task_stack_pointer := sp'\<rparr>)"
    using l' by simp
  ultimately show ?case using len by fastforce
qed

lemma task_create_no_parent:
  "ASSERT_ATOMIC s \<Longrightarrow>
   \<exists>task s' T. task_create E s NULL name user = Inr (task, s') \<and> tasks s' task = Some T \<and>
      task_pdir T = (if user then memory_pdir_create E (snd (malloc s)) else memory_kpdir E) \<and>
      task_state T = TASK_STATE_NONE"
  by (simp add: task_create_def Let_def malloc_def log_event_def)

lemma task_set_state_live:
  "tasks s task = Some T \<Longrightarrow> ASSERT_ATOMIC s \<Longrightarrow>
   task_set_state s task st =
     Inr ((log_event (Scheduler_did_change_task_state task (task_state T) st) s)
            \<lparr>tasks := (tasks s)(task \<mapsto> T\<lparr>task_state := st\<rparr>)\<rparr>)"
  by (simp add: task_set_state_def log_event_def)

lemma task_block_enter_twice:
  "tasks s task = Some T \<Longrightarrow> task_blocker T \<noteq> NULL \<Longrightarrow>
   task_block_enter E ops s task blocker timeout = Inl AssertionFailed"
  by (simp add: task_block_enter_def task_block_install_def)

lemma task_block_enter_suspended:
  assumes "tasks s task = Some T"
    and "task_block_enter E ops s task blocker timeout = Inr (Suspended s')"
  shows "tasks s' task = Some (T\<lparr>task_blocker := blocker, task_state := TASK_STATE_BLOCKED\<rparr>)"
  using assms
  by (auto simp: task_block_enter_def task_block_install_def task_set_state_def Let_def
      atomic_begin_def atomic_end_def log_event_def ASSERT_ATOMIC_def
      split: if_splits option.splits sum.splits)

lemma task_block_enter_returned:
  assumes "task_block_enter E ops s task blocker timeout = Inr (Returned r s')"
  shows "\<exists>T'. tasks s' task = Some T' \<and> task_blocker T' = NULL"
  using assms
  by (auto simp: task_block_enter_def task_block_unblock_def Let_def atomic_end_def
      split: if_splits option.splits sum.splits)

lemma task_block_resume_clears:
  assumes "tasks s task = Some T" and "task_block_resume s task blocker = Inr (r, s')"
  shows "tasks s' task = Some (T\<lparr>task_blocker := NULL\<rparr>)"
  using assms
  by (auto simp: task_block_resume_def Let_def split: option.splits)

lemma task_cancel_live:
  "task \<noteq> NULL \<Longrightarrow> tasks s task = Some T \<Longrightarrow>
   \<exists>s'. task_cancel s task v = Inr (SUCCESS, s') \<and>
        tasks s' task = Some (T\<lparr>task_exit_value := v, task_state := TASK_STATE_CANCELED\<rparr>)"
  by (simp add: task_cancel_def task_set_state_def atomic_begin_def atomic_end_def
      ASSERT_ATOMIC_def log_event_def Let_def)

lemma task_destroy_frees:
  "task_destroy E s task = Inr s' \<Longrightarrow> tasks s' task = None"
  by (auto simp: task_destroy_def Let_def log_event_def split: option.splits sum.splits if_splits)

lemma by_address_loop_none:
  "\<forall>m \<in> set ms. \<exists>M. h m = Some M \<and> mapping_address M \<noteq> a \<Longrightarrow>
   task_memory_mapping_by_address_loop h ms a = Inr NULL"
  by (induction ms) auto

lemma by_address_loop_found:
  "\<forall>m \<in> set ms. h m \<noteq> None \<Longrightarrow> \<exists>m \<in> set ms. \<exists>M. h m = Some M \<and> mapping_address M = a \<Longrightarrow>
   \<exists>m M. task_memory_mapping_by_address_loop h ms a = Inr m \<and> m \<in> set ms \<and>
         h m = Some M \<and> mapping_address M = a"
proof (induction ms)
  case Nil
  then show ?case by simp
next
  case (Cons x ms)
  then obtain X where X: "h x = Some X" by auto
  show ?case
  proof (cases "mapping_address X = a")
    case True
    with X show ?thesis by auto
  next
    case False
    with X Cons.prems have "\<exists>m \<in> set ms. \<exists>M. h m = Some M \<and> mapping_address M = a" by auto
    moreover from Cons.prems have "\<forall>m \<in> set ms. h m \<noteq> None" by simp
    ultimately obtain m M where "task_memory_mapping_by_address_loop h ms a = Inr m"
      "m \<in> set ms" "h m = Some M" "mapping_address M = a"
      using Cons.IH by blast
    with X False show ?thesis by auto
  qed
qed

lemma memory_object_deref_live:
  "objects s p = Some obj \<Longrightarrow>
   \<exists>s'. memory_object_deref E s p = Inr s' \<and> tasks s' = tasks s \<and> mappings s' = mappings s \<and>
        all_tasks s' = all_tasks s"
  by (simp add: memory_object_deref_def memory_object_destroy_def Let_def log_event_def)

lemma task_memory_mapping_destroy_live:
  assumes "tasks s task = Some T" and "mappings s m = Some M"
    and "objects s (mapping_object M) \<noteq> None"
  shows "\<exists>s'. task_memory_mapping_destroy E s task m = Inr s' \<and>
          mappings s' = (mappings s)(m := None) \<and>
          tasks s' = (tasks s)(task \<mapsto>
              T\<lparr>task_memory_mapping := remove1 m (task_memory_mapping T)\<rparr>) \<and>
          all_tasks s' = all_tasks s"
proof -
  define s1 where
    "s1 = log_event (Virtual_free (task_pdir T) (mapping_address M) (mapping_size M)) s"
  from assms(3) obtain obj where "objects s1 (mapping_object M) = Some obj"
    by (auto simp: s1_def log_event_def)
  from memory_object_deref_live [OF this, of E] obtain s2 where
    d: "memory_object_deref E s1 (mapping_object M) = Inr s2" and
    k: "tasks s2 = tasks s1" "mappings s2 = mappings s1" "all_tasks s2 = all_tasks s1" by blast
  have "task_memory_mapping_destroy E s task m =
      Inr (s2\<lparr>tasks := (tasks s2)(task \<mapsto>
                 T\<lparr>task_memory_mapping := remove1 m (task_memory_mapping T)\<rparr>),
              mappings := (mappings s2)(m := None)\<rparr>)"
    using assms(1,2) d by (simp add: task_memory_mapping_destroy_def s1_def Let_def)
  then show ?thesis
    using k by (simp add: s1_def log_event_def)
qed

subsection \<open>Reference counts\<close>

lemma mapping_below_top:
  "\<forall>m. heap_top s < m \<longrightarrow> mappings s m = None \<Longrightarrow> mappings s m = Some M \<Longrightarrow> m \<le> heap_top s"
  by (auto simp: not_less [symmetric])

lemma length_mappings_of_object:
  assumes "\<forall>m. heap_top s < m \<longrightarrow> mappings s m = None"
  shows "length (mappings_of_object s obj) = card (object_references s obj)"
proof -
  let ?P = "\<lambda>m. case mappings s m of None \<Rightarrow> False | Some M \<Rightarrow> mapping_object M = obj"
  have "object_references s obj = {m. ?P m}"
    by (auto simp: object_references_def split: option.splits)
  moreover have "{m. ?P m} \<subseteq> set [0..<Suc (heap_top s)]"
  proof
    fix m assume "m \<in> {m. ?P m}"
    then obtain M where "mappings s m = Some M" by (auto split: option.splits)
    from mapping_below_top [OF assms this]
    show "m \<in> set [0..<Suc (heap_top s)]" unfolding set_upt by simp
  qed
  moreover have "length (filter ?P [0..<Suc (heap_top s)]) = card ({m. ?P m} \<inter> set [0..<Suc (heap_top s)])"
    by (rule distinct_length_filter) simp
  ultimately show ?thesis
    by (simp add: mappings_of_object_def Int_absorb2)
qed

lemma finite_object_references:
  assumes "\<forall>m. heap_top s < m \<longrightarrow> mappings s m = None"
  shows "finite (object_references s obj)"
proof -
  have "object_references s obj \<subseteq> {..heap_top s}"
  proof
    fix m assume "m \<in> object_references s obj"
    then obtain M where "mappings s m = Some M" by (auto simp: object_references_def)
    from mapping_below_top [OF assms this]
    show "m \<in> {..heap_top s}" by simp
  qed
  then show ?thesis by (rule finite_subset) simp
qed

lemma set_mappings_of_object:
  assumes "\<forall>m. heap_top s < m \<longrightarrow> mappings s m = None"
  shows "set (mappings_of_object s obj) = object_references s obj"
proof -
  have "m \<le> heap_top s" if "mappings s m = Some M" for m M
    using mapping_below_top [OF assms that] .
  then show ?thesis
    unfolding mappings_of_object_def object_references_def set_filter set_upt
    by (auto simp: less_Suc_eq_le split: option.splits)
qed

lemma refcount_invariant_iff:
  "refcount_invariant s temp \<longleftrightarrow>
     distinct (memory_objects s) \<and>
     (\<forall>m. heap_top s < m \<longrightarrow> mappings s m = None) \<and>
     (\<forall>m M. mappings s m = Some M \<longrightarrow> mapping_object M \<in> set (memory_objects s)) \<and>
     (\<forall>x \<in> set (memory_objects s).
        x \<le> heap_top s \<and>
        (\<exists>obj. objects s x = Some obj \<and>
               object_refcount obj = int (card (object_references s x)) + int (temp x)))"
  (is "?L \<longleftrightarrow> ?R")
proof
  assume ?L
  then have b: "\<forall>m. heap_top s < m \<longrightarrow> mappings s m = None"
    by (simp add: refcount_invariant_def)
  from \<open>?L\<close> show ?R
    unfolding refcount_invariant_def length_mappings_of_object [OF b]
    by (auto split: option.splits)
next
  assume ?R
  then have b: "\<forall>m. heap_top s < m \<longrightarrow> mappings s m = None" by simp
  from \<open>?R\<close> show ?L
    unfolding refcount_invariant_def length_mappings_of_object [OF b]
    by (auto split: option.splits)
qed

text \<open>A step that changes reference counts only: \<open>ref\<close>, and \<open>deref\<close> above zero.\<close>

lemma refcount_invariant_recount:
  assumes inv: "refcount_invariant s temp"
    and same: "memory_objects s' = memory_objects s" "mappings s' = mappings s"
      "heap_top s' = heap_top s"
    and objs: "\<forall>x \<in> set (memory_objects s). \<forall>obj. objects s x = Some obj \<longrightarrow>
        (\<exists>obj'. objects s' x = Some obj' \<and>
           object_refcount obj' - int (temp' x) = object_refcount obj - int (temp x))"
  shows "refcount_invariant s' temp'"
proof -
  have refs: "object_references s' x = object_references s x" for x
    by (simp add: object_references_def same)
  show ?thesis
    using inv objs unfolding refcount_invariant_iff same refs
    by (fastforce)
qed

lemma memory_object_ref_invariant:
  assumes inv: "refcount_invariant s temp"
    and ref: "memory_object_ref s obj = Inr s'"
  shows "refcount_invariant s' (temp(obj := Suc (temp obj)))"
proof -
  from ref obtain ob where ob: "objects s obj = Some ob"
    and s': "s' = s\<lparr>objects := (objects s)(obj \<mapsto> ob\<lparr>object_refcount := object_refcount ob + 1\<rparr>)\<rparr>"
    by (auto simp: memory_object_ref_def split: option.splits)
  show ?thesis
    by (rule refcount_invariant_recount [OF inv]) (auto simp: s' ob)
qed

lemma memory_object_deref_invariant:
  assumes inv: "refcount_invariant s temp"
    and deref: "memory_object_deref E s obj = Inr s'"
    and held: "0 < temp obj"
  shows "refcount_invariant s' (temp(obj := temp obj - 1))"
proof -
  from deref obtain ob where ob: "objects s obj = Some ob"
    by (auto simp: memory_object_deref_def split: option.splits)
  show ?thesis
  proof (cases "object_refcount ob - 1 = 0")
    case False
    with deref ob have s': "s' = s\<lparr>objects := (objects s)(obj \<mapsto> ob\<lparr>object_refcount := object_refcount ob - 1\<rparr>)\<rparr>"
      by (simp add: memory_object_deref_def)
    show ?thesis
      by (rule refcount_invariant_recount [OF inv]) (use held in \<open>auto simp: s' ob\<close>)
  next
    case True
    with deref ob have reg: "memory_objects s' = remove1 obj (memory_objects s)"
      and objs: "objects s' = (objects s)(obj := None)"
      and maps: "mappings s' = mappings s" and top: "heap_top s' = heap_top s"
      by (auto simp: memory_object_deref_def memory_object_destroy_def Let_def log_event_def)
    have refs: "object_references s' x = object_references s x" for x
      by (simp add: object_references_def maps)
    from inv have b: "\<forall>m. heap_top s < m \<longrightarrow> mappings s m = None"
      and d: "distinct (memory_objects s)"
      and r: "\<forall>m M. mappings s m = Some M \<longrightarrow> mapping_object M \<in> set (memory_objects s)"
      and c: "\<forall>x \<in> set (memory_objects s). x \<le> heap_top s \<and>
        (\<exists>obj. objects s x = Some obj \<and>
               object_refcount obj = int (card (object_references s x)) + int (temp x))"
      by (simp_all add: refcount_invariant_iff)
    have none: "object_references s obj = {}"
    proof (cases "obj \<in> set (memory_objects s)")
      case True
      with c ob have "object_refcount ob = int (card (object_references s obj)) + int (temp obj)"
        by fastforce
      with \<open>object_refcount ob - 1 = 0\<close> held have "card (object_references s obj) = 0" by linarith
      then show ?thesis using finite_object_references [OF b] by simp
    next
      case False
      with r show ?thesis by (fastforce simp: object_references_def)
    qed
    have r': "\<forall>m M. mappings s' m = Some M \<longrightarrow> mapping_object M \<in> set (memory_objects s')"
    proof (intro allI impI)
      fix m M assume m: "mappings s' m = Some M"
      with r maps have "mapping_object M \<in> set (memory_objects s)" by simp
      moreover have "mapping_object M \<noteq> obj"
        using none m maps by (auto simp: object_references_def)
      ultimately show "mapping_object M \<in> set (memory_objects s')"
        using d by (simp add: reg)
    qed
    have c': "\<forall>x \<in> set (memory_objects s'). x \<le> heap_top s' \<and>
        (\<exists>ob'. objects s' x = Some ob' \<and>
               object_refcount ob' = int (card (object_references s' x))
                  + int ((temp(obj := temp obj - 1)) x))"
    proof
      fix x assume "x \<in> set (memory_objects s')"
      with d have x: "x \<in> set (memory_objects s)" "x \<noteq> obj" by (auto simp: reg)
      with c show "x \<le> heap_top s' \<and>
        (\<exists>ob'. objects s' x = Some ob' \<and>
               object_refcount ob' = int (card (object_references s' x))
                  + int ((temp(obj := temp obj - 1)) x))"
        by (simp add: top objs refs)
    qed
    show ?thesis
      unfolding refcount_invariant_iff
      using d b r' c' by (simp add: reg maps top)
  qed
qed


lemma memory_object_create_invariant:
  assumes inv: "refcount_invariant s temp"
    and create: "memory_object_create E s size0 = (obj, s')"
  shows "refcount_invariant s' (temp(obj := 1)) \<and> obj = Suc (heap_top s) \<and>
         obj \<in> set (memory_objects s') \<and> tasks s' = tasks s \<and>
         (\<exists>ob. objects s' obj = Some ob \<and> object_refcount ob = 1)"
proof -
  from create have obj: "obj = Suc (heap_top s)"
    and top: "heap_top s' = Suc (heap_top s)"
    and reg: "memory_objects s' = memory_objects s @ [obj]"
    and maps: "mappings s' = mappings s"
    and tsk: "tasks s' = tasks s"
    and objs: "\<exists>ob. objects s' = (objects s)(obj \<mapsto> ob) \<and> object_refcount ob = 1"
    by (auto simp: memory_object_create_def malloc_def log_event_def Let_def)
  have refs: "object_references s' x = object_references s x" for x
    by (simp add: object_references_def maps)
  from inv have b: "\<forall>m. heap_top s < m \<longrightarrow> mappings s m = None"
    and d: "distinct (memory_objects s)"
    and r: "\<forall>m M. mappings s m = Some M \<longrightarrow> mapping_object M \<in> set (memory_objects s)"
    and c: "\<forall>x \<in> set (memory_objects s). x \<le> heap_top s \<and>
      (\<exists>ob. objects s x = Some ob \<and>
             object_refcount ob = int (card (object_references s x)) + int (temp x))"
    by (simp_all add: refcount_invariant_iff)
  have fresh: "obj \<notin> set (memory_objects s)"
    using c obj by fastforce
  then have none: "object_references s obj = {}"
    using r by (fastforce simp: object_references_def)
  have "\<forall>x \<in> set (memory_objects s'). x \<le> heap_top s' \<and>
      (\<exists>ob. objects s' x = Some ob \<and>
             object_refcount ob = int (card (object_references s' x)) + int ((temp(obj := 1)) x))"
  proof
    fix x assume "x \<in> set (memory_objects s')"
    then consider "x = obj" | "x \<in> set (memory_objects s)" "x \<noteq> obj"
      using reg by auto
    then show "x \<le> heap_top s' \<and>
      (\<exists>ob. objects s' x = Some ob \<and>
             object_refcount ob = int (card (object_references s' x)) + int ((temp(obj := 1)) x))"
    proof cases
      case 1
      with objs none show ?thesis by (auto simp: top obj refs)
    next
      case 2
      with c objs show ?thesis by (fastforce simp: top refs)
    qed
  qed
  then have "refcount_invariant s' (temp(obj := 1))"
    unfolding refcount_invariant_iff
    using d b r fresh by (auto simp: reg maps top)
  with obj reg tsk objs show ?thesis by auto
qed

lemma card_object_references_insert:
  assumes b: "\<forall>m. heap_top s < m \<longrightarrow> mappings s m = None"
    and fresh: "mappings s m = None"
    and maps: "mappings s' = (mappings s)(m \<mapsto> M)"
  shows "card (object_references s' x) =
           (if mapping_object M = x then Suc (card (object_references s x))
            else card (object_references s x))"
proof -
  have notin: "m \<notin> object_references s x"
    using fresh by (simp add: object_references_def)
  have "object_references s' x =
          (if mapping_object M = x then insert m (object_references s x)
           else object_references s x)"
    using fresh by (auto simp: object_references_def maps)
  then show ?thesis
    using notin finite_object_references [OF b, of x] by simp
qed




lemma card_object_references_remove:
  assumes b: "\<forall>m. heap_top s < m \<longrightarrow> mappings s m = None"
    and live: "mappings s m = Some M"
    and maps: "mappings s' = (mappings s)(m := None)"
  shows "object_references s' x = object_references s x - {m}"
    and "int (card (object_references s' x)) =
           (if mapping_object M = x then int (card (object_references s x)) - 1
            else int (card (object_references s x)))"
proof -
  show eq: "object_references s' x = object_references s x - {m}"
    by (auto simp: object_references_def maps)
  have fin: "finite (object_references s x)" by (rule finite_object_references [OF b])
  show "int (card (object_references s' x)) =
           (if mapping_object M = x then int (card (object_references s x)) - 1
            else int (card (object_references s x)))"
  proof (cases "mapping_object M = x")
    case True
    then have "m \<in> object_references s x" using live by (simp add: object_references_def)
    then have "card (object_references s x - {m}) = card (object_references s x) - 1"
      "0 < card (object_references s x)"
      using fin by (auto simp: card_gt_0_iff)
    with True eq show ?thesis by simp
  next
    case False
    then have "m \<notin> object_references s x" using live by (simp add: object_references_def)
    with False eq show ?thesis by simp
  qed
qed




lemma task_memory_mapping_create_invariant:
  assumes inv: "refcount_invariant s temp"
    and create: "task_memory_mapping_create E s task obj = Inr (m, s')"
    and reg_obj: "obj \<in> set (memory_objects s)"
  shows "refcount_invariant s' temp \<and> m = Suc (heap_top s) \<and>
         memory_objects s' = memory_objects s \<and>
         (\<exists>M. mappings s' = (mappings s)(m \<mapsto> M) \<and> mapping_object M = obj) \<and>
         (\<exists>ob. objects s obj = Some ob \<and>
               objects s' = (objects s)(obj \<mapsto> ob\<lparr>object_refcount := object_refcount ob + 1\<rparr>)) \<and>
         (\<exists>T. tasks s task = Some T \<and>
              tasks s' = (tasks s)(task \<mapsto>
                 T\<lparr>task_memory_mapping := task_memory_mapping T @ [m]\<rparr>))"
proof -
  from create obtain ob T M where
    m: "m = Suc (heap_top s)"
    and ob: "objects s obj = Some ob"
    and T: "tasks s task = Some T"
    and top: "heap_top s' = Suc (heap_top s)"
    and reg: "memory_objects s' = memory_objects s"
    and maps: "mappings s' = (mappings s)(m \<mapsto> M)" and M: "mapping_object M = obj"
    and objs: "objects s' = (objects s)(obj \<mapsto> ob\<lparr>object_refcount := object_refcount ob + 1\<rparr>)"
    and tsk: "tasks s' = (tasks s)(task \<mapsto> T\<lparr>task_memory_mapping := task_memory_mapping T @ [m]\<rparr>)"
    by (auto simp: task_memory_mapping_create_def memory_object_ref_def malloc_def log_event_def
        Let_def split: option.splits)
  from inv have b: "\<forall>m. heap_top s < m \<longrightarrow> mappings s m = None"
    and d: "distinct (memory_objects s)"
    and r: "\<forall>m M. mappings s m = Some M \<longrightarrow> mapping_object M \<in> set (memory_objects s)"
    and c: "\<forall>x \<in> set (memory_objects s). x \<le> heap_top s \<and>
      (\<exists>ob. objects s x = Some ob \<and>
             object_refcount ob = int (card (object_references s x)) + int (temp x))"
    by (simp_all add: refcount_invariant_iff)
  have fresh: "mappings s m = None" using b m by simp
  note card = card_object_references_insert [OF b fresh maps]
  have b': "\<forall>m'. heap_top s' < m' \<longrightarrow> mappings s' m' = None"
    using b by (simp add: top maps m)
  have r': "\<forall>m' M'. mappings s' m' = Some M' \<longrightarrow> mapping_object M' \<in> set (memory_objects s')"
    using r reg_obj M by (auto simp: maps reg)
  have c': "\<forall>x \<in> set (memory_objects s'). x \<le> heap_top s' \<and>
      (\<exists>ob. objects s' x = Some ob \<and>
             object_refcount ob = int (card (object_references s' x)) + int (temp x))"
  proof
    fix x assume "x \<in> set (memory_objects s')"
    then have x: "x \<in> set (memory_objects s)" by (simp add: reg)
    with c obtain xo where xo: "x \<le> heap_top s" "objects s x = Some xo"
      "object_refcount xo = int (card (object_references s x)) + int (temp x)" by blast
    show "x \<le> heap_top s' \<and>
      (\<exists>ob. objects s' x = Some ob \<and>
             object_refcount ob = int (card (object_references s' x)) + int (temp x))"
    proof (cases "x = obj")
      case True
      with xo ob M show ?thesis by (simp add: top objs card)
    next
      case False
      with xo M show ?thesis by (simp add: top objs card)
    qed
  qed
  have "refcount_invariant s' temp"
    unfolding refcount_invariant_iff using d b' r' c' by (simp add: reg)
  with m reg maps M ob objs T tsk show ?thesis by blast
qed




lemma task_memory_mapping_destroy_invariant:
  assumes inv: "refcount_invariant s temp"
    and destroy: "task_memory_mapping_destroy E s task m = Inr s'"
  shows "refcount_invariant s' temp"
proof -
  from destroy obtain T M s1 s2 where T: "tasks s task = Some T" and M: "mappings s m = Some M"
    and s1: "s1 = log_event (Virtual_free (task_pdir T) (mapping_address M) (mapping_size M)) s"
    and deref: "memory_object_deref E s1 (mapping_object M) = Inr s2"
    and s': "s' = s2\<lparr>tasks := (tasks s2)(task \<mapsto>
                        T\<lparr>task_memory_mapping := remove1 m (task_memory_mapping T)\<rparr>),
                     mappings := (mappings s2)(m := None)\<rparr>"
    by (auto simp: task_memory_mapping_destroy_def Let_def split: option.splits sum.splits)
  define obj where "obj = mapping_object M"
  from inv have b: "\<forall>m. heap_top s < m \<longrightarrow> mappings s m = None"
    and d: "distinct (memory_objects s)"
    and r: "\<forall>m M. mappings s m = Some M \<longrightarrow> mapping_object M \<in> set (memory_objects s)"
    and c: "\<forall>x \<in> set (memory_objects s). x \<le> heap_top s \<and>
      (\<exists>ob. objects s x = Some ob \<and>
             object_refcount ob = int (card (object_references s x)) + int (temp x))"
    by (simp_all add: refcount_invariant_iff)
  from r M have reg_obj: "obj \<in> set (memory_objects s)" by (simp add: obj_def)
  with c obtain ob where ob: "objects s obj = Some ob"
    "object_refcount ob = int (card (object_references s obj)) + int (temp obj)" by blast
  have maps: "mappings s' = (mappings s)(m := None)"
    and top: "heap_top s' = heap_top s"
    using deref
    by (auto simp: s' s1 memory_object_deref_def memory_object_destroy_def log_event_def Let_def
        obj_def split: option.splits if_splits)
  note card = card_object_references_remove [OF b M maps]
  have b': "\<forall>m'. heap_top s' < m' \<longrightarrow> mappings s' m' = None"
    using b by (simp add: top maps)
  have m_in: "m \<in> object_references s obj"
    using M by (simp add: object_references_def obj_def)
  show ?thesis
  proof (cases "object_refcount ob - 1 = 0")
    case False
    with deref ob have reg: "memory_objects s' = memory_objects s"
      and objs: "objects s' = (objects s)(obj \<mapsto> ob\<lparr>object_refcount := object_refcount ob - 1\<rparr>)"
      by (auto simp: s' s1 memory_object_deref_def log_event_def obj_def)
    have r': "\<forall>m' M'. mappings s' m' = Some M' \<longrightarrow> mapping_object M' \<in> set (memory_objects s')"
      using r by (auto simp: maps reg split: if_splits)
    have c': "\<forall>x \<in> set (memory_objects s'). x \<le> heap_top s' \<and>
      (\<exists>ob. objects s' x = Some ob \<and>
             object_refcount ob = int (card (object_references s' x)) + int (temp x))"
    proof
      fix x assume "x \<in> set (memory_objects s')"
      then have "x \<in> set (memory_objects s)" by (simp add: reg)
      with c obtain xo where xo: "x \<le> heap_top s" "objects s x = Some xo"
        "object_refcount xo = int (card (object_references s x)) + int (temp x)" by blast
      show "x \<le> heap_top s' \<and>
        (\<exists>ob. objects s' x = Some ob \<and>
             object_refcount ob = int (card (object_references s' x)) + int (temp x))"
      proof (cases "x = obj")
        case True
        with xo ob show ?thesis by (simp add: top objs card(2) obj_def)
      next
        case False
        with xo show ?thesis by (simp add: top objs card(2) obj_def)
      qed
    qed
    show ?thesis
      unfolding refcount_invariant_iff using d b' r' c' by (simp add: reg)
  next
    case True
    with deref ob have reg: "memory_objects s' = remove1 obj (memory_objects s)"
      and objs: "objects s' = (objects s)(obj := None)"
      by (auto simp: s' s1 memory_object_deref_def memory_object_destroy_def log_event_def
          obj_def Let_def)
    have fin: "finite (object_references s obj)" by (rule finite_object_references [OF b])
    from True ob(2) have "card (object_references s obj) \<le> 1" by linarith
    moreover from m_in fin have "1 \<le> card (object_references s obj)"
      by (simp add: Suc_le_eq card_gt_0_iff) blast
    ultimately have "card (object_references s obj) = 1" by simp
    then obtain y where "object_references s obj = {y}" by (auto simp: card_1_singleton_iff)
    with m_in have only: "object_references s obj = {m}" by simp
    have r': "\<forall>m' M'. mappings s' m' = Some M' \<longrightarrow> mapping_object M' \<in> set (memory_objects s')"
    proof (intro allI impI)
      fix m' M' assume a: "mappings s' m' = Some M'"
      then have ne: "m' \<noteq> m" and live: "mappings s m' = Some M'"
        by (auto simp: maps split: if_splits)
      from live r have "mapping_object M' \<in> set (memory_objects s)" by blast
      moreover have "mapping_object M' \<noteq> obj"
      proof
        assume "mapping_object M' = obj"
        with live have "m' \<in> object_references s obj" by (simp add: object_references_def)
        with only ne show False by simp
      qed
      ultimately show "mapping_object M' \<in> set (memory_objects s')"
        using d by (simp add: reg)
    qed
    have c': "\<forall>x \<in> set (memory_objects s'). x \<le> heap_top s' \<and>
      (\<exists>ob. objects s' x = Some ob \<and>
             object_refcount ob = int (card (object_references s' x)) + int (temp x))"
    proof
      fix x assume "x \<in> set (memory_objects s')"
      with d have x: "x \<in> set (memory_objects s)" "x \<noteq> obj" by (auto simp: reg)
      with c obtain xo where xo: "x \<le> heap_top s" "objects s x = Some xo"
        "object_refcount xo = int (card (object_references s x)) + int (temp x)" by blast
      with x show "x \<le> heap_top s' \<and>
        (\<exists>ob. objects s' x = Some ob \<and>
             object_refcount ob = int (card (object_references s' x)) + int (temp x))"
        by (simp add: top objs card(2) obj_def)
    qed
    show ?thesis
      unfolding refcount_invariant_iff using d b' r' c' by (simp add: reg)
  qed
qed

lemma refcount_invariant_cong:
  assumes "memory_objects s' = memory_objects s" "mappings s' = mappings s"
    "objects s' = objects s" "heap_top s' = heap_top s"
  shows "refcount_invariant s' temp = refcount_invariant s temp"
proof -
  have "mappings_of_object s' x = mappings_of_object s x" for x
    by (simp add: mappings_of_object_def assms)
  then show ?thesis
    by (simp add: refcount_invariant_def assms split: option.split)
qed

lemma no_temp_update: "(\<lambda>_. 0::nat)(obj := 0) = (\<lambda>_. 0)"
  by (rule ext) simp

lemma task_memory_mapping_create_live:
  assumes "tasks s task = Some T" and "objects s obj = Some ob"
  shows "\<exists>m s'. task_memory_mapping_create E s task obj = Inr (m, s')"
  using assms
  by (simp add: task_memory_mapping_create_def memory_object_ref_def malloc_def Let_def)

lemma task_shared_memory_alloc_invariant:
  fixes E :: "'p env"
  assumes inv: "refcount_invariant s (\<lambda>_. 0)"
    and live: "tasks s task = Some T"
  shows "\<exists>addr obj m s' ob M.
           task_shared_memory_alloc E s task size0 = Inr (SUCCESS, addr, s') \<and>
           obj \<notin> set (memory_objects s) \<and> obj \<in> set (memory_objects s') \<and>
           objects s' obj = Some ob \<and> object_refcount ob = 1 \<and>
           mappings_of_object s' obj = [m] \<and>
           mappings s' m = Some M \<and> mapping_object M = obj \<and> mapping_address M = addr \<and>
           tasks s' task = Some (T\<lparr>task_memory_mapping := task_memory_mapping T @ [m]\<rparr>) \<and>
           refcount_invariant s' (\<lambda>_. 0)"
proof -
  obtain obj s1 where create: "memory_object_create E s size0 = (obj, s1)"
    by (cases "memory_object_create E s size0")
  from memory_object_create_invariant [OF inv create]
  obtain ob1 where inv1: "refcount_invariant s1 ((\<lambda>_. 0)(obj := 1))"
    and obj: "obj = Suc (heap_top s)" and reg1: "obj \<in> set (memory_objects s1)"
    and t1: "tasks s1 = tasks s" and ob1: "objects s1 obj = Some ob1" "object_refcount ob1 = 1"
    by blast
  from inv obj have fresh: "obj \<notin> set (memory_objects s)"
    by (fastforce simp: refcount_invariant_def)
  from live t1 have live1: "tasks s1 task = Some T" by simp
  from task_memory_mapping_create_live [OF live1 ob1(1), of E]
  obtain m s2 where mc: "task_memory_mapping_create E s1 task obj = Inr (m, s2)" by blast
  from task_memory_mapping_create_invariant [OF inv1 mc reg1] live1 ob1
  obtain M where inv2: "refcount_invariant s2 ((\<lambda>_. 0)(obj := 1))"
    and reg2: "memory_objects s2 = memory_objects s1"
    and maps2: "mappings s2 = (mappings s1)(m \<mapsto> M)" and M: "mapping_object M = obj"
    and objs2: "objects s2 = (objects s1)(obj \<mapsto> ob1\<lparr>object_refcount := object_refcount ob1 + 1\<rparr>)"
    and t2: "tasks s2 = (tasks s1)(task \<mapsto> T\<lparr>task_memory_mapping := task_memory_mapping T @ [m]\<rparr>)"
    by auto
  define s3 where "s3 = s2\<lparr>objects := (objects s2)(obj \<mapsto> ob1\<lparr>object_refcount := 1\<rparr>)\<rparr>"
  have deref: "memory_object_deref E s2 obj = Inr s3"
    using ob1 by (simp add: memory_object_deref_def objs2 s3_def)
  from memory_object_deref_invariant [OF inv2 deref]
  have inv3: "refcount_invariant s3 (\<lambda>_. 0)" by (simp add: no_temp_update)
  have m3: "mappings s3 m = Some M" by (simp add: s3_def maps2)
  have ob3: "objects s3 obj = Some (ob1\<lparr>object_refcount := 1\<rparr>)" by (simp add: s3_def)
  have reg3: "obj \<in> set (memory_objects s3)" using reg1 by (simp add: s3_def reg2)
  have t3: "tasks s3 task = Some (T\<lparr>task_memory_mapping := task_memory_mapping T @ [m]\<rparr>)"
    by (simp add: s3_def t2)
  from inv3 have b3: "\<forall>m. heap_top s3 < m \<longrightarrow> mappings s3 m = None"
    by (simp add: refcount_invariant_def)
  from inv3 reg3 ob3 have "length (mappings_of_object s3 obj) = 1"
    by (fastforce simp: refcount_invariant_def)
  moreover have "m \<in> set (mappings_of_object s3 obj)"
    using m3 M by (simp add: set_mappings_of_object [OF b3] object_references_def)
  ultimately have only: "mappings_of_object s3 obj = [m]"
    by (cases "mappings_of_object s3 obj") auto
  have "task_shared_memory_alloc E s task size0 = Inr (SUCCESS, mapping_address M, s3)"
    using create mc deref m3 by (simp add: task_shared_memory_alloc_def)
  with fresh reg3 ob3 only m3 M t3 inv3 show ?thesis by auto
qed

lemma memory_object_by_id_loop_result:
  "memory_object_by_id_loop h ps i = Inr obj \<Longrightarrow> obj = NULL \<or> obj \<in> set ps"
  by (induction ps) (auto split: option.splits if_splits)

lemma memory_object_by_id_invariant:
  assumes inv: "refcount_invariant s (\<lambda>_. 0)"
    and byid: "memory_object_by_id s i = Inr (obj, s')"
  shows "(obj = NULL \<and> s' = s) \<or>
         (obj \<in> set (memory_objects s') \<and> memory_objects s' = memory_objects s \<and>
          tasks s' = tasks s \<and> refcount_invariant s' ((\<lambda>_. 0)(obj := 1)))"
proof (cases "obj = NULL")
  case True
  with byid show ?thesis
    by (auto simp: memory_object_by_id_def split: sum.splits if_splits)
next
  case False
  with byid have loop: "memory_object_by_id_loop (objects s) (memory_objects s) i = Inr obj"
    and ref: "memory_object_ref s obj = Inr s'"
    by (auto simp: memory_object_by_id_def split: sum.splits if_splits)
  from memory_object_by_id_loop_result [OF loop] False
  have "obj \<in> set (memory_objects s)" by simp
  moreover from ref have "memory_objects s' = memory_objects s" "tasks s' = tasks s"
    by (auto simp: memory_object_ref_def split: option.splits)
  moreover from memory_object_ref_invariant [OF inv ref]
  have "refcount_invariant s' ((\<lambda>_. 0)(obj := 1))" by simp
  ultimately show ?thesis by simp
qed

lemma task_shared_memory_include_invariant:
  fixes E :: "'p env"
  assumes inv: "refcount_invariant s (\<lambda>_. 0)"
    and incl: "task_shared_memory_include E s task handle = Inr (r, out, s')"
  shows "refcount_invariant s' (\<lambda>_. 0)"
proof -
  from incl obtain obj s1 where byid: "memory_object_by_id s handle = Inr (obj, s1)"
    by (auto simp: task_shared_memory_include_def split: sum.splits)
  show ?thesis
  proof (cases "obj = NULL")
    case True
    with byid have "s1 = s"
      by (auto simp: memory_object_by_id_def split: sum.splits if_splits)
    with True incl byid inv show ?thesis
      by (simp add: task_shared_memory_include_def)
  next
    case False
    with memory_object_by_id_invariant [OF inv byid]
    have reg1: "obj \<in> set (memory_objects s1)"
      and inv1: "refcount_invariant s1 ((\<lambda>_. 0)(obj := 1))" by auto
    from incl byid False obtain m s2 where
      mc: "task_memory_mapping_create E s1 task obj = Inr (m, s2)"
      and deref: "memory_object_deref E s2 obj = Inr s'"
      by (auto simp: task_shared_memory_include_def split: sum.splits option.splits)
    from task_memory_mapping_create_invariant [OF inv1 mc reg1]
    have inv2: "refcount_invariant s2 ((\<lambda>_. 0)(obj := 1))" by blast
    from memory_object_deref_invariant [OF inv2 deref]
    show ?thesis by (simp add: no_temp_update)
  qed
qed

lemma task_shared_memory_free_invariant:
  fixes E :: "'p env"
  assumes inv: "refcount_invariant s temp"
    and free: "task_shared_memory_free E s task address = Inr (r, s')"
  shows "refcount_invariant s' temp"
  using free inv task_memory_mapping_destroy_invariant [OF inv]
  by (auto simp: task_shared_memory_free_def split: sum.splits if_splits)

lemma destroy_memory_mappings_invariant:
  "refcount_invariant s temp \<Longrightarrow> destroy_memory_mappings E s task ms = Inr s' \<Longrightarrow>
   refcount_invariant s' temp"
proof (induction ms arbitrary: s)
  case Nil
  then show ?case by simp
next
  case (Cons m ms)
  from Cons.prems(2) obtain s1 where d: "task_memory_mapping_destroy E s task m = Inr s1"
    and rest: "destroy_memory_mappings E s1 task ms = Inr s'"
    by (auto split: sum.splits)
  from task_memory_mapping_destroy_invariant [OF Cons.prems(1) d]
  have "refcount_invariant s1 temp" .
  from Cons.IH [OF this rest] show ?case .
qed

lemma task_destroy_Inr:
  assumes destroy: "task_destroy E s task = Inr s'"
  obtains T s2 s4 T4 where "tasks s task = Some T"
    and "(if task_state T \<noteq> TASK_STATE_NONE
          then task_set_state (atomic_begin s) task TASK_STATE_NONE
          else Inr (atomic_begin s)) = Inr s2"
    and "destroy_memory_mappings E
           (atomic_end (s2\<lparr>all_tasks := remove1 task (all_tasks s2)\<rparr>)) task
           (task_memory_mapping T) = Inr s4"
    and "tasks s4 task = Some T4"
    and "s' = (let s5 = log_event (Task_fshandle_close_all task) s4;
                   s6 = log_event (Memory_free (task_pdir T4) (task_stack T4)
                                     (PROCESS_STACK_SIZE E)) s5;
                   s7 = (if task_pdir T4 \<noteq> memory_kpdir E
                         then log_event (Memory_pdir_destroy (task_pdir T4)) s6
                         else s6)
               in s7\<lparr>tasks := (tasks s7)(task := None)\<rparr>)"
proof (cases "tasks s task")
  case None
  with destroy show ?thesis
    by (simp add: task_destroy_def atomic_begin_def)
next
  case (Some T)
  then have T1: "tasks (atomic_begin s) task = Some T" by (simp add: atomic_begin_def)
  show ?thesis
  proof (cases "if task_state T \<noteq> TASK_STATE_NONE
          then task_set_state (atomic_begin s) task TASK_STATE_NONE
          else Inr (atomic_begin s)")
    case (Inl e)
    with destroy T1 show ?thesis by (simp add: task_destroy_def)
  next
    case (Inr s2)
    show ?thesis
    proof (cases "destroy_memory_mappings E
           (atomic_end (s2\<lparr>all_tasks := remove1 task (all_tasks s2)\<rparr>)) task
           (task_memory_mapping T)")
      case (Inl e)
      with destroy T1 Inr show ?thesis by (simp add: task_destroy_def)
    next
      case s4: (Inr s4)
      show ?thesis
      proof (cases "tasks s4 task")
        case None
        with destroy T1 Inr s4 show ?thesis by (simp add: task_destroy_def)
      next
        case T4: (Some T4)
        from destroy T1 Inr s4 T4 have "s' = (let s5 = log_event (Task_fshandle_close_all task) s4;
                   s6 = log_event (Memory_free (task_pdir T4) (task_stack T4)
                                     (PROCESS_STACK_SIZE E)) s5;
                   s7 = (if task_pdir T4 \<noteq> memory_kpdir E
                         then log_event (Memory_pdir_destroy (task_pdir T4)) s6
                         else s6)
               in s7\<lparr>tasks := (tasks s7)(task := None)\<rparr>)"
          by (simp add: task_destroy_def Let_def)
        with Some Inr s4 T4 that show ?thesis by blast
      qed
    qed
  qed
qed

lemma task_set_state_frame:
  assumes "task_set_state s task st = Inr s'"
  shows "memory_objects s' = memory_objects s" "mappings s' = mappings s"
    "objects s' = objects s" "heap_top s' = heap_top s" "all_tasks s' = all_tasks s"
    "atomic_depth s' = atomic_depth s" "blockers s' = blockers s"
proof -
  from assms obtain T where
    "s' = (log_event (Scheduler_did_change_task_state task (task_state T) st) s)
            \<lparr>tasks := (tasks s)(task \<mapsto> T\<lparr>task_state := st\<rparr>)\<rparr>"
    by (cases "tasks s task"; cases "ASSERT_ATOMIC s")
       (auto simp: task_set_state_def log_event_def)
  then show "memory_objects s' = memory_objects s" "mappings s' = mappings s"
    "objects s' = objects s" "heap_top s' = heap_top s" "all_tasks s' = all_tasks s"
    "atomic_depth s' = atomic_depth s" "blockers s' = blockers s"
    by (simp_all add: log_event_def)
qed

lemma task_destroy_final_frame:
  assumes "s' = (let s5 = log_event (Task_fshandle_close_all task) s4;
                   s6 = log_event (Memory_free (task_pdir T4) (task_stack T4)
                                     (PROCESS_STACK_SIZE E)) s5;
                   s7 = (if task_pdir T4 \<noteq> memory_kpdir E
                         then log_event (Memory_pdir_destroy (task_pdir T4)) s6
                         else s6)
               in s7\<lparr>tasks := (tasks s7)(task := None)\<rparr>)"
  shows "memory_objects s' = memory_objects s4" "mappings s' = mappings s4"
    "objects s' = objects s4" "heap_top s' = heap_top s4" "all_tasks s' = all_tasks s4"
    "tasks s' = (tasks s4)(task := None)"
    "events s' = events s4 @ [Task_fshandle_close_all task,
         Memory_free (task_pdir T4) (task_stack T4) (PROCESS_STACK_SIZE E)] @
         (if task_pdir T4 \<noteq> memory_kpdir E then [Memory_pdir_destroy (task_pdir T4)] else [])"
  unfolding assms by (simp_all add: Let_def log_event_def)

lemma task_destroy_invariant:
  fixes E :: "'p env"
  assumes inv: "refcount_invariant s temp"
    and destroy: "task_destroy E s task = Inr s'"
  shows "refcount_invariant s' temp"
proof -
  from destroy obtain T s2 s4 T4 where T: "tasks s task = Some T"
    and st: "(if task_state T \<noteq> TASK_STATE_NONE
              then task_set_state (atomic_begin s) task TASK_STATE_NONE
              else Inr (atomic_begin s)) = Inr s2"
    and loop: "destroy_memory_mappings E
                 (atomic_end (s2\<lparr>all_tasks := remove1 task (all_tasks s2)\<rparr>)) task
                 (task_memory_mapping T) = Inr s4"
    and T4: "tasks s4 task = Some T4"
    and s': "s' = (let s5 = log_event (Task_fshandle_close_all task) s4;
                   s6 = log_event (Memory_free (task_pdir T4) (task_stack T4)
                                     (PROCESS_STACK_SIZE E)) s5;
                   s7 = (if task_pdir T4 \<noteq> memory_kpdir E
                         then log_event (Memory_pdir_destroy (task_pdir T4)) s6
                         else s6)
               in s7\<lparr>tasks := (tasks s7)(task := None)\<rparr>)"
    by (rule task_destroy_Inr)
  note same' = task_destroy_final_frame(1-4) [OF s']
  have same2: "memory_objects s2 = memory_objects s" "mappings s2 = mappings s"
    "objects s2 = objects s" "heap_top s2 = heap_top s"
  proof -
    show "memory_objects s2 = memory_objects s"
      using st task_set_state_frame(1) [of "atomic_begin s" task TASK_STATE_NONE s2]
      by (cases "task_state T \<noteq> TASK_STATE_NONE") (auto simp: atomic_begin_def)
    show "mappings s2 = mappings s"
      using st task_set_state_frame(2) [of "atomic_begin s" task TASK_STATE_NONE s2]
      by (cases "task_state T \<noteq> TASK_STATE_NONE") (auto simp: atomic_begin_def)
    show "objects s2 = objects s"
      using st task_set_state_frame(3) [of "atomic_begin s" task TASK_STATE_NONE s2]
      by (cases "task_state T \<noteq> TASK_STATE_NONE") (auto simp: atomic_begin_def)
    show "heap_top s2 = heap_top s"
      using st task_set_state_frame(4) [of "atomic_begin s" task TASK_STATE_NONE s2]
      by (cases "task_state T \<noteq> TASK_STATE_NONE") (auto simp: atomic_begin_def)
  qed
  have "refcount_invariant (atomic_end (s2\<lparr>all_tasks := remove1 task (all_tasks s2)\<rparr>)) temp =
        refcount_invariant s temp"
    by (rule refcount_invariant_cong) (simp_all add: atomic_end_def same2)
  with inv have "refcount_invariant (atomic_end (s2\<lparr>all_tasks := remove1 task (all_tasks s2)\<rparr>)) temp"
    by simp
  from destroy_memory_mappings_invariant [OF this loop]
  have "refcount_invariant s4 temp" .
  then show ?thesis
    by (simp add: refcount_invariant_cong [OF same'])
qed

lemma memory_object_deref_complete:
  assumes "objects s p = Some ob"
  shows "\<exists>s' evs. memory_object_deref E s p = Inr s' \<and> tasks s' = tasks s \<and>
           mappings s' = mappings s \<and> all_tasks s' = all_tasks s \<and>
           events s' = events s @ evs \<and> (\<forall>e \<in> set evs. \<exists>a n. e = Physical_free a n)"
proof (cases "object_refcount ob - 1 = 0")
  case True
  with assms show ?thesis
    by (simp add: memory_object_deref_def memory_object_destroy_def Let_def log_event_def)
next
  case False
  with assms have "memory_object_deref E s p =
      Inr (s\<lparr>objects := (objects s)(p \<mapsto> ob\<lparr>object_refcount := object_refcount ob - 1\<rparr>)\<rparr>)"
    by (simp add: memory_object_deref_def)
  then show ?thesis by simp
qed

lemma task_memory_mapping_destroy_complete:
  assumes T: "tasks s task = Some T" and M: "mappings s m = Some M"
    and ob: "objects s (mapping_object M) \<noteq> None"
  shows "\<exists>s' evs. task_memory_mapping_destroy E s task m = Inr s' \<and>
          mappings s' = (mappings s)(m := None) \<and>
          tasks s' = (tasks s)(task \<mapsto>
              T\<lparr>task_memory_mapping := remove1 m (task_memory_mapping T)\<rparr>) \<and>
          all_tasks s' = all_tasks s \<and>
          events s' = events s @ evs \<and>
          (\<forall>e \<in> set evs. (\<exists>p a n. e = Virtual_free p a n) \<or> (\<exists>a n. e = Physical_free a n))"
proof -
  define s1 where
    "s1 = log_event (Virtual_free (task_pdir T) (mapping_address M) (mapping_size M)) s"
  from ob obtain obj where "objects s1 (mapping_object M) = Some obj"
    by (auto simp: s1_def log_event_def)
  from memory_object_deref_complete [OF this, of E] obtain s2 evs where
    d: "memory_object_deref E s1 (mapping_object M) = Inr s2" and
    k: "tasks s2 = tasks s1" "mappings s2 = mappings s1" "all_tasks s2 = all_tasks s1"
       "events s2 = events s1 @ evs" "\<forall>e \<in> set evs. \<exists>a n. e = Physical_free a n"
    by blast
  have r: "task_memory_mapping_destroy E s task m =
      Inr (s2\<lparr>tasks := (tasks s2)(task \<mapsto>
                 T\<lparr>task_memory_mapping := remove1 m (task_memory_mapping T)\<rparr>),
              mappings := (mappings s2)(m := None)\<rparr>)"
    using T M d by (simp add: task_memory_mapping_destroy_def s1_def Let_def)
  have ev: "events s2 = events s @
      (Virtual_free (task_pdir T) (mapping_address M) (mapping_size M) # evs)"
    using k(4) by (simp add: s1_def log_event_def)
  have "\<forall>e \<in> set (Virtual_free (task_pdir T) (mapping_address M) (mapping_size M) # evs).
          (\<exists>p a n. e = Virtual_free p a n) \<or> (\<exists>a n. e = Physical_free a n)"
    using k(5) by auto
  with r k(1-3) ev show ?thesis
    by (simp add: s1_def log_event_def del: set_simps)
qed

lemma invariant_object_live:
  assumes inv: "refcount_invariant s temp" and M: "mappings s m = Some M"
  shows "objects s (mapping_object M) \<noteq> None"
proof -
  from inv M have "mapping_object M \<in> set (memory_objects s)"
    by (simp add: refcount_invariant_def)
  with inv show ?thesis
    by (fastforce simp: refcount_invariant_def split: option.splits)
qed

lemma destroy_memory_mappings_complete:
  assumes "refcount_invariant s temp" and "tasks s task = Some T"
    and "distinct ms" and "\<forall>m \<in> set ms. mappings s m \<noteq> None"
  shows "\<exists>s' l evs. destroy_memory_mappings E s task ms = Inr s' \<and>
           tasks s' = (tasks s)(task \<mapsto> T\<lparr>task_memory_mapping := l\<rparr>) \<and>
           all_tasks s' = all_tasks s \<and>
           (\<forall>m \<in> set ms. mappings s' m = None) \<and>
           events s' = events s @ evs \<and>
           (\<forall>e \<in> set evs. (\<exists>p a n. e = Virtual_free p a n) \<or> (\<exists>a n. e = Physical_free a n))"
  using assms
proof (induction ms arbitrary: s T)
  case Nil
  have "tasks s = (tasks s)(task \<mapsto> T\<lparr>task_memory_mapping := task_memory_mapping T\<rparr>)"
    using Nil.prems(2) by (auto simp: fun_upd_idem)
  then show ?case by (metis append_Nil2 ball_empty destroy_memory_mappings.simps(1) empty_set list.set(1))
next
  case (Cons m ms)
  from Cons.prems(4) obtain M where M: "mappings s m = Some M" by auto
  note ob = invariant_object_live [OF Cons.prems(1) M]
  from task_memory_mapping_destroy_complete [OF Cons.prems(2) M ob, of E]
  obtain s1 evs1 where d: "task_memory_mapping_destroy E s task m = Inr s1"
    and maps1: "mappings s1 = (mappings s)(m := None)"
    and t1: "tasks s1 = (tasks s)(task \<mapsto>
              T\<lparr>task_memory_mapping := remove1 m (task_memory_mapping T)\<rparr>)"
    and a1: "all_tasks s1 = all_tasks s"
    and e1: "events s1 = events s @ evs1"
    and k1: "\<forall>e \<in> set evs1. (\<exists>p a n. e = Virtual_free p a n) \<or> (\<exists>a n. e = Physical_free a n)"
    by blast
  from task_memory_mapping_destroy_invariant [OF Cons.prems(1) d]
  have inv1: "refcount_invariant s1 temp" .
  have live1: "tasks s1 task = Some (T\<lparr>task_memory_mapping := remove1 m (task_memory_mapping T)\<rparr>)"
    by (simp add: t1)
  from Cons.prems(3) have dist: "distinct ms" and notin: "m \<notin> set ms" by simp_all
  have all1: "\<forall>m' \<in> set ms. mappings s1 m' \<noteq> None"
    using Cons.prems(4) notin by (auto simp: maps1)
  from Cons.IH [OF inv1 live1 dist all1]
  obtain s' l evs where r: "destroy_memory_mappings E s1 task ms = Inr s'"
    and t': "tasks s' = (tasks s1)(task \<mapsto>
          T\<lparr>task_memory_mapping := remove1 m (task_memory_mapping T)\<rparr>\<lparr>task_memory_mapping := l\<rparr>)"
    and a': "all_tasks s' = all_tasks s1"
    and n': "\<forall>m \<in> set ms. mappings s' m = None"
    and e': "events s' = events s1 @ evs"
    and k': "\<forall>e \<in> set evs. (\<exists>p a n. e = Virtual_free p a n) \<or> (\<exists>a n. e = Physical_free a n)"
    by blast
  have res: "destroy_memory_mappings E s task (m # ms) = Inr s'"
    using d r by simp
  have tasks': "tasks s' = (tasks s)(task \<mapsto> T\<lparr>task_memory_mapping := l\<rparr>)"
    by (simp add: t' t1)
  have ev: "events s' = events s @ (evs1 @ evs)" by (simp add: e' e1)
  have kk: "\<forall>e \<in> set (evs1 @ evs). (\<exists>p a n. e = Virtual_free p a n) \<or> (\<exists>a n. e = Physical_free a n)"
    using k1 k' by auto
  have mnone: "mappings s' m = None"
  proof -
    have "mappings s1 m = None" by (simp add: maps1)
    moreover have "mappings s2 x = None \<Longrightarrow> destroy_memory_mappings E s2 task xs = Inr s3
        \<Longrightarrow> mappings s3 x = None" for s2 s3 :: "'a kstate" and x xs
    proof (induction xs arbitrary: s2)
      case Nil then show ?case by simp
    next
      case (Cons y ys)
      from Cons.prems(2) obtain s2' where dd: "task_memory_mapping_destroy E s2 task y = Inr s2'"
        and rr: "destroy_memory_mappings E s2' task ys = Inr s3"
        by (auto split: sum.splits)
      from dd have "mappings s2' x = None"
        using Cons.prems(1)
        by (auto simp: task_memory_mapping_destroy_def memory_object_deref_def
            memory_object_destroy_def log_event_def Let_def split: option.splits sum.splits if_splits)
      from Cons.IH [OF this rr] show ?case .
    qed
    ultimately show ?thesis using r by blast
  qed
  from res tasks' a' a1 n' mnone ev kk show ?case
    by (metis set_ConsD)
qed

lemma ex_state_refcount_invariant: "refcount_invariant ex_state (\<lambda>_. 0)"
proof -
  have "mappings_of_object ex_state 6 = [7]"
    by (simp add: mappings_of_object_def ex_state_def upt_rec)
  then show ?thesis
    by (simp add: refcount_invariant_def) (auto simp: ex_state_def)
qed

subsection \<open>Blocking\<close>

text \<open>
  C3. Let \<open>task\<close> be a live task with an empty blocker slot and \<open>blocker\<close> a live
  blocker, and let \<open>s2\<close> be the state in which the blocker is installed. If
  \<open>can_unblock\<close> answers true there, \<open>task_block\<close> runs \<open>on_unblock\<close> when the blocker
  has one (giving \<open>s3\<close>; \<open>s3 = s2\<close> when it has none), clears the slot of the task,
  frees the blocker, leaves the atomic section and returns \<open>BLOCKER_UNBLOCKED\<close>.
  It returns before the yield, whatever the scheduler would do, and the record
  of the task is the one the hook left but for the slot: \<open>task_block\<close> itself
  neither changes the state of the task nor reports a change to the scheduler.
\<close>

theorem task_block_fast_path:
  fixes E :: "'p env"
  assumes live: "tasks s task = Some T"
    and empty: "task_blocker T = NULL"
    and blk: "blockers s blocker = Some B"
    and s2: "s2 = (atomic_begin s)\<lparr>tasks := (tasks s)(task \<mapsto> T\<lparr>task_blocker := blocker\<rparr>)\<rparr>"
    and can: "can_unblock ops s2 blocker task = Inr True"
    and hook: "(case on_unblock ops of None \<Rightarrow> Inr s2 | Some h \<Rightarrow> h s2 blocker task) = Inr s3"
    and live3: "tasks s3 task = Some T3"
    and blk3: "blockers s3 blocker = Some B3"
  shows "task_block_enter E ops s task blocker timeout =
           Inr (Returned BLOCKER_UNBLOCKED
                (atomic_end (s3\<lparr>tasks := (tasks s3)(task \<mapsto> T3\<lparr>task_blocker := NULL\<rparr>),
                               blockers := (blockers s3)(blocker := None)\<rparr>))) \<and>
         task_block E ops s task blocker timeout =
           Inr (BLOCKER_UNBLOCKED,
                atomic_end (s3\<lparr>tasks := (tasks s3)(task \<mapsto> T3\<lparr>task_blocker := NULL\<rparr>),
                               blockers := (blockers s3)(blocker := None)\<rparr>))"
proof -
  have install: "task_block_install s task blocker = Inr s2"
    using live empty s2 by (simp add: task_block_install_live)
  have b2: "blockers s2 blocker = Some B"
    using blk s2 by (simp add: atomic_begin_def)
  have unblock: "task_block_unblock ops s2 task blocker =
      Inr (atomic_end (s3\<lparr>tasks := (tasks s3)(task \<mapsto> T3\<lparr>task_blocker := NULL\<rparr>),
                          blockers := (blockers s3)(blocker := None)\<rparr>))"
    using hook live3 blk3 by (simp add: task_block_unblock_def)
  have enter: "task_block_enter E ops s task blocker timeout =
      Inr (Returned BLOCKER_UNBLOCKED
            (atomic_end (s3\<lparr>tasks := (tasks s3)(task \<mapsto> T3\<lparr>task_blocker := NULL\<rparr>),
                          blockers := (blockers s3)(blocker := None)\<rparr>)))"
    using install b2 can unblock by (simp add: task_block_enter_def)
  then show ?thesis
    by (simp add: task_block_def)
qed

theorem task_block_fast_path_witness:
  "task_block ex_env blocker_wait_ops ex_state 1 5 (- 1) =
     Inr (BLOCKER_UNBLOCKED,
          ex_state\<lparr>blockers := (blockers ex_state)(5 := None),
                   memory := memcpy (memory ex_state) 12288 (bytes_of_word 42)\<rparr>)"
proof -
  define ex_T1 where "ex_T1 = ex_task 0 TASK_STATE_RUNNING NULL [7] 0"
  define ex_s2 where
    "ex_s2 = (atomic_begin ex_state)\<lparr>tasks := (tasks ex_state)(1 \<mapsto> ex_T1\<lparr>task_blocker := 5\<rparr>)\<rparr>"
  define ex_s3 where
    "ex_s3 = ex_s2\<lparr>memory := memcpy (memory ex_s2) 12288 (bytes_of_word 42)\<rparr>"
  have live: "tasks ex_state 1 = Some ex_T1" by (simp add: ex_state_def ex_T1_def)
  have empty: "task_blocker ex_T1 = NULL" by (simp add: ex_T1_def ex_task_def)
  have blk: "blockers ex_state 5 = Some \<lparr>blocker_result = BLOCKER_UNBLOCKED, blocker_timeout = 0,
                          blocker_kind = BlockerWait 4 12288\<rparr>" by (simp add: ex_state_def)
  have can: "can_unblock blocker_wait_ops ex_s2 5 1 = Inr True"
    by (simp add: blocker_wait_ops_def ex_s2_def ex_state_def atomic_begin_def ex_task_def)
  have hook: "(case on_unblock blocker_wait_ops of None \<Rightarrow> Inr ex_s2 | Some h \<Rightarrow> h ex_s2 5 1)
                = Inr ex_s3"
    by (simp add: blocker_wait_ops_def ex_s3_def ex_s2_def ex_state_def atomic_begin_def ex_task_def)
  have live3: "tasks ex_s3 1 = Some (ex_T1\<lparr>task_blocker := 5\<rparr>)"
    by (simp add: ex_s3_def ex_s2_def)
  have blk3: "blockers ex_s3 5 = Some \<lparr>blocker_result = BLOCKER_UNBLOCKED, blocker_timeout = 0,
                          blocker_kind = BlockerWait 4 12288\<rparr>"
    by (simp add: ex_s3_def ex_s2_def ex_state_def atomic_begin_def)
  have T1: "ex_T1\<lparr>task_blocker := NULL\<rparr> = ex_T1" by (simp add: ex_T1_def ex_task_def)
  show ?thesis
    using conjunct2 [OF task_block_fast_path [OF live empty blk ex_s2_def can hook live3 blk3,
          of ex_env "- 1"]]
    apply (simp add: ex_s3_def ex_s2_def atomic_begin_def atomic_end_def T1 live)
    apply (simp add: ex_state_def)
    apply (rule ext, simp add: ex_T1_def)
    done
qed

text \<open>
  C4. Whenever \<open>task_sleep\<close> returns, it returns \<open>TIMEOUT\<close>: whatever result
  \<open>br\<close> the call of \<open>task_block\<close> on the time blocker comes back with is dropped.
  With a timeout of 0, on a live task with an empty blocker slot, the deadline
  is the tick read at the call, so the blocker can unblock as soon as it is
  installed (the tick read then is not below the one read before) and
  \<open>task_sleep\<close> returns \<open>TIMEOUT\<close> without yielding, the same for every scheduler.
\<close>

theorem task_sleep_returns_TIMEOUT:
  fixes E :: "'p env"
  shows "(task_sleep E s task timeout = Inr (r, s') \<longrightarrow> r = TIMEOUT) \<and>
         (task_block E (blocker_time_ops E)
              (snd (blocker_time_create s (system_get_tick E s + timeout))) task
              (fst (blocker_time_create s (system_get_tick E s + timeout))) (- 1) = Inr (br, s2)
            \<longrightarrow> task_sleep E s task timeout = Inr (TIMEOUT, s2)) \<and>
         (tasks s task = Some T \<and> task_blocker T = NULL \<and>
          (\<forall>s2. task_block_install (snd (blocker_time_create s (system_get_tick E s))) task
                      (fst (blocker_time_create s (system_get_tick E s))) = Inr s2
                 \<longrightarrow> system_get_tick E s \<le> system_get_tick E s2)
            \<longrightarrow> (\<exists>s'. \<forall>y. task_sleep (E\<lparr>scheduler_yield := y\<rparr>) s task 0 = Inr (TIMEOUT, s')))"
  using task_sleep_result [of E s task timeout r s']
    task_sleep_of_block [of E s timeout task br s2]
    task_sleep_zero [of s task T E]
  by blast

theorem task_sleep_returns_TIMEOUT_witness:
  "\<exists>s'. \<forall>y. task_sleep (ex_env\<lparr>scheduler_yield := y\<rparr>) ex_state 1 0 = Inr (TIMEOUT, s')"
proof -
  have live: "tasks ex_state 1 = Some (ex_task 0 TASK_STATE_RUNNING NULL [7] 0)"
    by (simp add: ex_state_def)
  have empty: "task_blocker (ex_task 0 TASK_STATE_RUNNING NULL [7] 0) = NULL"
    by (simp add: ex_task_def)
  have tick: "\<forall>s2. task_block_install (snd (blocker_time_create ex_state (system_get_tick ex_env ex_state))) 1
                      (fst (blocker_time_create ex_state (system_get_tick ex_env ex_state))) = Inr s2
                 \<longrightarrow> system_get_tick ex_env ex_state \<le> system_get_tick ex_env s2"
    by (simp add: ex_env_def)
  show ?thesis
    using task_sleep_returns_TIMEOUT [where E = ex_env and s = ex_state and task = 1
        and T = "ex_task 0 TASK_STATE_RUNNING NULL [7] 0"] live empty tick
    by blast
qed

text \<open>
  C5. In a registry of live tasks, whichever argument of the call to
  \<open>task_block\<close> is evaluated first, \<open>task_wait\<close> returns \<open>ERR_NO_SUCH_TASK\<close>
  exactly when no registered task has the given id, and then leaves the state
  as it was (no blocker is created, none installed, no yield). Otherwise it
  never returns \<open>ERR_NO_SUCH_TASK\<close>: it creates a wait blocker \<open>b\<close> for the first
  task with that id and blocks the running task on it (a live task with an empty
  slot). If the target is \<open>CANCELED\<close> already, it returns \<open>SUCCESS\<close> at once,
  with the target's exit value written to \<open>ev\<close> and the blocker freed. If not,
  the call yields in the state \<open>susp\<close>, where \<open>b\<close> is in the slot of the running
  task and that task is \<open>BLOCKED\<close>; it never returns when the scheduler never
  resumes the task, and returns \<open>SUCCESS\<close>, with the slot emptied and the blocker
  freed, when it does.
\<close>

theorem task_wait_no_such_task:
  fixes E :: "'p env"
  assumes reg: "\<forall>t \<in> set (all_tasks s). t \<noteq> NULL \<and> tasks s t \<noteq> None"
  shows "((\<forall>t \<in> set (all_tasks s). \<forall>T. tasks s t = Some T \<longrightarrow> task_id T \<noteq> i)
            \<longrightarrow> task_wait E running_first s i ev = Inr (ERR_NO_SUCH_TASK, s)) \<and>
         ((\<exists>t \<in> set (all_tasks s). \<exists>T. tasks s t = Some T \<and> task_id T = i)
            \<longrightarrow> (\<forall>s'. task_wait E running_first s i ev \<noteq> Inr (ERR_NO_SUCH_TASK, s')) \<and>
                (\<exists>target T.
                   target \<in> set (all_tasks s) \<and> tasks s target = Some T \<and> task_id T = i \<and>
                   task_by_id s i = Inr target \<and>
                   (\<forall>b s3 running R susp.
                      b = Suc (heap_top s) \<and>
                      s3 = s\<lparr>heap_top := b,
                             blockers := (blockers s)(b \<mapsto>
                               \<lparr>blocker_result = BLOCKER_UNBLOCKED, blocker_timeout = 0,
                                blocker_kind = BlockerWait target ev\<rparr>)\<rparr> \<and>
                      running = scheduler_running E (if running_first then s else s3) \<and>
                      tasks s running = Some R \<and> task_blocker R = NULL \<and>
                      susp = s\<lparr>heap_top := b,
                               blockers := (blockers s)(b \<mapsto>
                                 \<lparr>blocker_result = BLOCKER_UNBLOCKED, blocker_timeout = - 1,
                                  blocker_kind = BlockerWait target ev\<rparr>),
                               events := events s @
                                 [Scheduler_did_change_task_state running (task_state R)
                                    TASK_STATE_BLOCKED],
                               tasks := (tasks s)(running \<mapsto>
                                 R\<lparr>task_blocker := b, task_state := TASK_STATE_BLOCKED\<rparr>)\<rparr>
                      \<longrightarrow>
                      (task_state T = TASK_STATE_CANCELED \<longrightarrow>
                         task_wait E running_first s i ev =
                           Inr (SUCCESS,
                                s\<lparr>heap_top := b,
                                  memory := memcpy (memory s) ev
                                              (bytes_of_word (task_exit_value T)),
                                  tasks := (tasks s)(running \<mapsto> R\<lparr>task_blocker := NULL\<rparr>),
                                  blockers := (blockers s)(b := None)\<rparr>)) \<and>
                      (task_state T \<noteq> TASK_STATE_CANCELED \<longrightarrow>
                         task_block_enter E blocker_wait_ops s3 running b (- 1) =
                           Inr (Suspended susp) \<and>
                         (scheduler_yield E susp = None \<longrightarrow>
                            task_wait E running_first s i ev = Inl NeverResumed) \<and>
                         (\<forall>s'' B'' R''.
                            scheduler_yield E susp = Some s'' \<and> blockers s'' b = Some B'' \<and>
                            tasks s'' running = Some R'' \<longrightarrow>
                            task_wait E running_first s i ev =
                              Inr (SUCCESS,
                                   s''\<lparr>blockers := (blockers s'')(b := None),
                                       tasks := (tasks s'')(running \<mapsto>
                                          R''\<lparr>task_blocker := NULL\<rparr>)\<rparr>))))))"
proof (intro conjI impI)
  assume "\<forall>t \<in> set (all_tasks s). \<forall>T. tasks s t = Some T \<longrightarrow> task_id T \<noteq> i"
  with reg show "task_wait E running_first s i ev = Inr (ERR_NO_SUCH_TASK, s)"
    by (rule task_wait_unknown)
next
  assume some: "\<exists>t \<in> set (all_tasks s). \<exists>T. tasks s t = Some T \<and> task_id T = i"
  from reg have "\<forall>t \<in> set (all_tasks s). tasks s t \<noteq> None" by blast
  from task_by_id_loop_found [OF this some]
  obtain target T where f: "task_by_id_loop (tasks s) (all_tasks s) i = Inr target"
    and m: "target \<in> set (all_tasks s)" and l: "tasks s target = Some T" and e: "task_id T = i"
    by blast
  from m reg have nn: "target \<noteq> NULL" by blast
  have byid: "task_by_id s i = Inr target" using f by (simp add: task_by_id_def)
  note found = task_wait_found [OF byid nn refl, of E running_first ev]
  show "\<forall>s'. task_wait E running_first s i ev \<noteq> Inr (ERR_NO_SUCH_TASK, s')"
    unfolding found by (auto split: sum.splits)
  have body: "(task_state T = TASK_STATE_CANCELED \<longrightarrow>
                 task_wait E running_first s i ev =
                   Inr (SUCCESS,
                        s\<lparr>heap_top := b,
                          memory := memcpy (memory s) ev (bytes_of_word (task_exit_value T)),
                          tasks := (tasks s)(running \<mapsto> R\<lparr>task_blocker := NULL\<rparr>),
                          blockers := (blockers s)(b := None)\<rparr>)) \<and>
              (task_state T \<noteq> TASK_STATE_CANCELED \<longrightarrow>
                 task_block_enter E blocker_wait_ops s3 running b (- 1) = Inr (Suspended susp) \<and>
                 (scheduler_yield E susp = None \<longrightarrow>
                    task_wait E running_first s i ev = Inl NeverResumed) \<and>
                 (\<forall>s'' B'' R''.
                    scheduler_yield E susp = Some s'' \<and> blockers s'' b = Some B'' \<and>
                    tasks s'' running = Some R'' \<longrightarrow>
                    task_wait E running_first s i ev =
                      Inr (SUCCESS,
                           s''\<lparr>blockers := (blockers s'')(b := None),
                               tasks := (tasks s'')(running \<mapsto> R''\<lparr>task_blocker := NULL\<rparr>)\<rparr>)))"
    if b: "b = Suc (heap_top s)"
      and s3: "s3 = s\<lparr>heap_top := b,
                     blockers := (blockers s)(b \<mapsto>
                       \<lparr>blocker_result = BLOCKER_UNBLOCKED, blocker_timeout = 0,
                        blocker_kind = BlockerWait target ev\<rparr>)\<rparr>"
      and run: "running = scheduler_running E (if running_first then s else s3)"
      and R: "tasks s running = Some R" and empty: "task_blocker R = NULL"
      and susp: "susp = s\<lparr>heap_top := b,
                       blockers := (blockers s)(b \<mapsto>
                         \<lparr>blocker_result = BLOCKER_UNBLOCKED, blocker_timeout = - 1,
                          blocker_kind = BlockerWait target ev\<rparr>),
                       events := events s @
                         [Scheduler_did_change_task_state running (task_state R)
                            TASK_STATE_BLOCKED],
                       tasks := (tasks s)(running \<mapsto>
                         R\<lparr>task_blocker := b, task_state := TASK_STATE_BLOCKED\<rparr>)\<rparr>"
    for b s3 running R susp
  proof -
    have w: "task_wait E running_first s i ev =
           (case task_block E blocker_wait_ops s3 running b (- 1) of
              Inl e \<Rightarrow> Inl e
            | Inr (r, s4) \<Rightarrow> Inr (SUCCESS, s4))"
      using found by (simp add: b s3 run)
    have fast: "task_wait E running_first s i ev =
                   Inr (SUCCESS,
                        s\<lparr>heap_top := b,
                          memory := memcpy (memory s) ev (bytes_of_word (task_exit_value T)),
                          tasks := (tasks s)(running \<mapsto> R\<lparr>task_blocker := NULL\<rparr>),
                          blockers := (blockers s)(b := None)\<rparr>)"
      if "task_state T = TASK_STATE_CANCELED"
      unfolding w task_block_wait_fast [OF R empty l that s3, of E] by simp
    have slow: "task_block_enter E blocker_wait_ops s3 running b (- 1) = Inr (Suspended susp) \<and>
                 (scheduler_yield E susp = None \<longrightarrow>
                    task_wait E running_first s i ev = Inl NeverResumed) \<and>
                 (\<forall>s'' B'' R''.
                    scheduler_yield E susp = Some s'' \<and> blockers s'' b = Some B'' \<and>
                    tasks s'' running = Some R'' \<longrightarrow>
                    task_wait E running_first s i ev =
                      Inr (SUCCESS,
                           s''\<lparr>blockers := (blockers s'')(b := None),
                               tasks := (tasks s'')(running \<mapsto> R''\<lparr>task_blocker := NULL\<rparr>)\<rparr>))"
      if c: "task_state T \<noteq> TASK_STATE_CANCELED"
    proof -
      have enter: "task_block_enter E blocker_wait_ops s3 running b (- 1) = Inr (Suspended susp)"
        unfolding susp by (rule task_block_wait_slow [OF R empty l c s3])
      from task_block_wait_resumed [OF enter] show ?thesis
        using enter unfolding w by (auto split: sum.splits)
    qed
    from fast slow show ?thesis by blast
  qed
  have body_all: "\<forall>b s3 running R susp.
              b = Suc (heap_top s) \<and>
              s3 = s\<lparr>heap_top := b,
                     blockers := (blockers s)(b \<mapsto>
                       \<lparr>blocker_result = BLOCKER_UNBLOCKED, blocker_timeout = 0,
                        blocker_kind = BlockerWait target ev\<rparr>)\<rparr> \<and>
              running = scheduler_running E (if running_first then s else s3) \<and>
              tasks s running = Some R \<and> task_blocker R = NULL \<and>
              susp = s\<lparr>heap_top := b,
                       blockers := (blockers s)(b \<mapsto>
                         \<lparr>blocker_result = BLOCKER_UNBLOCKED, blocker_timeout = - 1,
                          blocker_kind = BlockerWait target ev\<rparr>),
                       events := events s @
                         [Scheduler_did_change_task_state running (task_state R)
                            TASK_STATE_BLOCKED],
                       tasks := (tasks s)(running \<mapsto>
                         R\<lparr>task_blocker := b, task_state := TASK_STATE_BLOCKED\<rparr>)\<rparr>
              \<longrightarrow>
              (task_state T = TASK_STATE_CANCELED \<longrightarrow>
                 task_wait E running_first s i ev =
                   Inr (SUCCESS,
                        s\<lparr>heap_top := b,
                          memory := memcpy (memory s) ev (bytes_of_word (task_exit_value T)),
                          tasks := (tasks s)(running \<mapsto> R\<lparr>task_blocker := NULL\<rparr>),
                          blockers := (blockers s)(b := None)\<rparr>)) \<and>
              (task_state T \<noteq> TASK_STATE_CANCELED \<longrightarrow>
                 task_block_enter E blocker_wait_ops s3 running b (- 1) = Inr (Suspended susp) \<and>
                 (scheduler_yield E susp = None \<longrightarrow>
                    task_wait E running_first s i ev = Inl NeverResumed) \<and>
                 (\<forall>s'' B'' R''.
                    scheduler_yield E susp = Some s'' \<and> blockers s'' b = Some B'' \<and>
                    tasks s'' running = Some R'' \<longrightarrow>
                    task_wait E running_first s i ev =
                      Inr (SUCCESS,
                           s''\<lparr>blockers := (blockers s'')(b := None),
                               tasks := (tasks s'')(running \<mapsto>
                                  R''\<lparr>task_blocker := NULL\<rparr>)\<rparr>)))"
  proof (intro allI impI)
    fix b s3 running R susp
    assume a: "b = Suc (heap_top s) \<and>
              s3 = s\<lparr>heap_top := b,
                     blockers := (blockers s)(b \<mapsto>
                       \<lparr>blocker_result = BLOCKER_UNBLOCKED, blocker_timeout = 0,
                        blocker_kind = BlockerWait target ev\<rparr>)\<rparr> \<and>
              running = scheduler_running E (if running_first then s else s3) \<and>
              tasks s running = Some R \<and> task_blocker R = NULL \<and>
              susp = s\<lparr>heap_top := b,
                       blockers := (blockers s)(b \<mapsto>
                         \<lparr>blocker_result = BLOCKER_UNBLOCKED, blocker_timeout = - 1,
                          blocker_kind = BlockerWait target ev\<rparr>),
                       events := events s @
                         [Scheduler_did_change_task_state running (task_state R)
                            TASK_STATE_BLOCKED],
                       tasks := (tasks s)(running \<mapsto>
                         R\<lparr>task_blocker := b, task_state := TASK_STATE_BLOCKED\<rparr>)\<rparr>"
    show "(task_state T = TASK_STATE_CANCELED \<longrightarrow>
                 task_wait E running_first s i ev =
                   Inr (SUCCESS,
                        s\<lparr>heap_top := b,
                          memory := memcpy (memory s) ev (bytes_of_word (task_exit_value T)),
                          tasks := (tasks s)(running \<mapsto> R\<lparr>task_blocker := NULL\<rparr>),
                          blockers := (blockers s)(b := None)\<rparr>)) \<and>
              (task_state T \<noteq> TASK_STATE_CANCELED \<longrightarrow>
                 task_block_enter E blocker_wait_ops s3 running b (- 1) = Inr (Suspended susp) \<and>
                 (scheduler_yield E susp = None \<longrightarrow>
                    task_wait E running_first s i ev = Inl NeverResumed) \<and>
                 (\<forall>s'' B'' R''.
                    scheduler_yield E susp = Some s'' \<and> blockers s'' b = Some B'' \<and>
                    tasks s'' running = Some R'' \<longrightarrow>
                    task_wait E running_first s i ev =
                      Inr (SUCCESS,
                           s''\<lparr>blockers := (blockers s'')(b := None),
                               tasks := (tasks s'')(running \<mapsto>
                                  R''\<lparr>task_blocker := NULL\<rparr>)\<rparr>)))"
      by (rule body) (use a in blast)+
  qed
  show "\<exists>target T.
           target \<in> set (all_tasks s) \<and> tasks s target = Some T \<and> task_id T = i \<and>
           task_by_id s i = Inr target \<and>
           (\<forall>b s3 running R susp.
              b = Suc (heap_top s) \<and>
              s3 = s\<lparr>heap_top := b,
                     blockers := (blockers s)(b \<mapsto>
                       \<lparr>blocker_result = BLOCKER_UNBLOCKED, blocker_timeout = 0,
                        blocker_kind = BlockerWait target ev\<rparr>)\<rparr> \<and>
              running = scheduler_running E (if running_first then s else s3) \<and>
              tasks s running = Some R \<and> task_blocker R = NULL \<and>
              susp = s\<lparr>heap_top := b,
                       blockers := (blockers s)(b \<mapsto>
                         \<lparr>blocker_result = BLOCKER_UNBLOCKED, blocker_timeout = - 1,
                          blocker_kind = BlockerWait target ev\<rparr>),
                       events := events s @
                         [Scheduler_did_change_task_state running (task_state R)
                            TASK_STATE_BLOCKED],
                       tasks := (tasks s)(running \<mapsto>
                         R\<lparr>task_blocker := b, task_state := TASK_STATE_BLOCKED\<rparr>)\<rparr>
              \<longrightarrow>
              (task_state T = TASK_STATE_CANCELED \<longrightarrow>
                 task_wait E running_first s i ev =
                   Inr (SUCCESS,
                        s\<lparr>heap_top := b,
                          memory := memcpy (memory s) ev (bytes_of_word (task_exit_value T)),
                          tasks := (tasks s)(running \<mapsto> R\<lparr>task_blocker := NULL\<rparr>),
                          blockers := (blockers s)(b := None)\<rparr>)) \<and>
              (task_state T \<noteq> TASK_STATE_CANCELED \<longrightarrow>
                 task_block_enter E blocker_wait_ops s3 running b (- 1) = Inr (Suspended susp) \<and>
                 (scheduler_yield E susp = None \<longrightarrow>
                    task_wait E running_first s i ev = Inl NeverResumed) \<and>
                 (\<forall>s'' B'' R''.
                    scheduler_yield E susp = Some s'' \<and> blockers s'' b = Some B'' \<and>
                    tasks s'' running = Some R'' \<longrightarrow>
                    task_wait E running_first s i ev =
                      Inr (SUCCESS,
                           s''\<lparr>blockers := (blockers s'')(b := None),
                               tasks := (tasks s'')(running \<mapsto>
                                  R''\<lparr>task_blocker := NULL\<rparr>)\<rparr>))))"
    by (intro exI [of _ target] exI [of _ T] conjI m l e byid body_all)
qed

theorem task_wait_no_such_task_witness:
  "\<forall>running_first.
     task_wait ex_env running_first ex_state 9 12288 = Inr (ERR_NO_SUCH_TASK, ex_state) \<and>
     task_wait ex_env running_first ex_state 2 12288 =
       Inr (SUCCESS,
            ex_state\<lparr>heap_top := 8,
                     memory := memcpy (memory ex_state) 12288 (bytes_of_word 42),
                     tasks := (tasks ex_state)(1 \<mapsto>
                        (ex_task 0 TASK_STATE_RUNNING NULL [7] 0)\<lparr>task_blocker := NULL\<rparr>),
                     blockers := (blockers ex_state)(8 := None)\<rparr>) \<and>
     task_block_enter ex_env blocker_wait_ops
        (ex_state\<lparr>heap_top := 8,
                  blockers := (blockers ex_state)(8 \<mapsto>
                    \<lparr>blocker_result = BLOCKER_UNBLOCKED, blocker_timeout = 0,
                     blocker_kind = BlockerWait 2 12288\<rparr>)\<rparr>) 1 8 (- 1) =
       Inr (Suspended
            (ex_state\<lparr>heap_top := 8,
                      blockers := (blockers ex_state)(8 \<mapsto>
                        \<lparr>blocker_result = BLOCKER_UNBLOCKED, blocker_timeout = - 1,
                         blocker_kind = BlockerWait 2 12288\<rparr>),
                      events := events ex_state @
                        [Scheduler_did_change_task_state 1
                           (task_state (ex_task 0 TASK_STATE_RUNNING NULL [7] 0))
                           TASK_STATE_BLOCKED],
                      tasks := (tasks ex_state)(1 \<mapsto>
                        (ex_task 0 TASK_STATE_RUNNING NULL [7] 0)
                          \<lparr>task_blocker := 8, task_state := TASK_STATE_BLOCKED\<rparr>)\<rparr>)) \<and>
     task_wait ex_env running_first ex_state 1 12288 = Inl NeverResumed"
proof
  fix running_first
  define R where "R = ex_task 0 TASK_STATE_RUNNING NULL [7] 0"
  have none: "\<forall>t \<in> set (all_tasks ex_state). \<forall>T. tasks ex_state t = Some T \<longrightarrow> task_id T \<noteq> 9"
    by (simp add: ex_state_def ex_task_def)
  have some2: "\<exists>t \<in> set (all_tasks ex_state). \<exists>T. tasks ex_state t = Some T \<and> task_id T = 2"
    by (simp add: ex_state_def ex_task_def)
  have some1: "\<exists>t \<in> set (all_tasks ex_state). \<exists>T. tasks ex_state t = Some T \<and> task_id T = 1"
    by (simp add: ex_state_def ex_task_def)
  have byid2: "task_by_id ex_state 2 = Inr 4" and byid1: "task_by_id ex_state 1 = Inr 2"
    by (simp_all add: task_by_id_def ex_state_def ex_task_def)
  have t4: "tasks ex_state 4 = Some (ex_task 2 TASK_STATE_CANCELED NULL [] 42)"
    and t2: "tasks ex_state 2 = Some (ex_task 1 TASK_STATE_BLOCKED 3 [] 0)"
    and t1: "tasks ex_state 1 = Some R"
    by (simp_all add: ex_state_def R_def)
  have top: "Suc (heap_top ex_state) = 8" by (simp add: ex_state_def)
  have run: "scheduler_running ex_env x = 1" for x by (simp add: ex_env_def)
  have yield: "scheduler_yield ex_env x = None" for x by (simp add: ex_env_def)
  have empty: "task_blocker R = NULL" by (simp add: R_def ex_task_def)
  have st: "task_state (ex_task 2 TASK_STATE_CANCELED NULL [] 42) = TASK_STATE_CANCELED"
    "task_exit_value (ex_task 2 TASK_STATE_CANCELED NULL [] 42) = 42"
    "task_state (ex_task 1 TASK_STATE_BLOCKED 3 [] 0) \<noteq> TASK_STATE_CANCELED"
    by (simp_all add: ex_task_def)
  note claim = task_wait_no_such_task [OF ex_state_registry, where E = ex_env
      and running_first = running_first and ev = 12288]
  have a: "task_wait ex_env running_first ex_state 9 12288 = Inr (ERR_NO_SUCH_TASK, ex_state)"
    by (rule claim [of 9, THEN conjunct1, THEN mp, OF none])
  have u2: "\<And>x. task_by_id ex_state 2 = Inr x \<Longrightarrow> x = 4" using byid2 by simp
  have v2: "\<And>y. tasks ex_state 4 = Some y \<Longrightarrow> y = ex_task 2 TASK_STATE_CANCELED NULL [] 42"
    using t4 by simp
  note all2 = pick_target [OF claim [of 2, THEN conjunct2, THEN mp, OF some2, THEN conjunct2] u2 v2]
  have b': "task_wait ex_env running_first ex_state 2 12288 =
       Inr (SUCCESS,
            ex_state\<lparr>heap_top := 8,
                     memory := memcpy (memory ex_state) 12288
                       (bytes_of_word (task_exit_value (ex_task 2 TASK_STATE_CANCELED NULL [] 42))),
                     tasks := (tasks ex_state)(1 \<mapsto> R\<lparr>task_blocker := NULL\<rparr>),
                     blockers := (blockers ex_state)(8 := None)\<rparr>)"
    apply (rule all2 [THEN spec, THEN spec, THEN spec, THEN spec, THEN spec, THEN mp,
          THEN conjunct1, THEN mp])
       apply assumption
      apply assumption
     apply (intro conjI)
          apply (simp add: top)
         apply (rule refl)
        apply (simp add: run)
       apply (rule t1)
      apply (rule empty)
     apply (rule refl)
    apply (rule st(1))
    done
  have b: "task_wait ex_env running_first ex_state 2 12288 =
       Inr (SUCCESS,
            ex_state\<lparr>heap_top := 8,
                     memory := memcpy (memory ex_state) 12288 (bytes_of_word 42),
                     tasks := (tasks ex_state)(1 \<mapsto> R\<lparr>task_blocker := NULL\<rparr>),
                     blockers := (blockers ex_state)(8 := None)\<rparr>)"
    using b' unfolding st(2) .
  have u1: "\<And>x. task_by_id ex_state 1 = Inr x \<Longrightarrow> x = 2" using byid1 by simp
  have v1: "\<And>y. tasks ex_state 2 = Some y \<Longrightarrow> y = ex_task 1 TASK_STATE_BLOCKED 3 [] 0"
    using t2 by simp
  note all1 = pick_target [OF claim [of 1, THEN conjunct2, THEN mp, OF some1, THEN conjunct2] u1 v1]
  have slow: "task_block_enter ex_env blocker_wait_ops
        (ex_state\<lparr>heap_top := 8,
                  blockers := (blockers ex_state)(8 \<mapsto>
                    \<lparr>blocker_result = BLOCKER_UNBLOCKED, blocker_timeout = 0,
                     blocker_kind = BlockerWait 2 12288\<rparr>)\<rparr>) 1 8 (- 1) =
       Inr (Suspended
            (ex_state\<lparr>heap_top := 8,
                      blockers := (blockers ex_state)(8 \<mapsto>
                        \<lparr>blocker_result = BLOCKER_UNBLOCKED, blocker_timeout = - 1,
                         blocker_kind = BlockerWait 2 12288\<rparr>),
                      events := events ex_state @
                        [Scheduler_did_change_task_state 1 (task_state R) TASK_STATE_BLOCKED],
                      tasks := (tasks ex_state)(1 \<mapsto>
                        R\<lparr>task_blocker := 8, task_state := TASK_STATE_BLOCKED\<rparr>)\<rparr>)) \<and>
      (scheduler_yield ex_env
            (ex_state\<lparr>heap_top := 8,
                      blockers := (blockers ex_state)(8 \<mapsto>
                        \<lparr>blocker_result = BLOCKER_UNBLOCKED, blocker_timeout = - 1,
                         blocker_kind = BlockerWait 2 12288\<rparr>),
                      events := events ex_state @
                        [Scheduler_did_change_task_state 1 (task_state R) TASK_STATE_BLOCKED],
                      tasks := (tasks ex_state)(1 \<mapsto>
                        R\<lparr>task_blocker := 8, task_state := TASK_STATE_BLOCKED\<rparr>)\<rparr>) = None
         \<longrightarrow> task_wait ex_env running_first ex_state 1 12288 = Inl NeverResumed)"
    apply (rule conj_prefix [OF all1 [THEN spec, THEN spec, THEN spec, THEN spec, THEN spec,
          THEN mp, THEN conjunct2, THEN mp]])
       apply assumption
      apply assumption
     apply (intro conjI)
          apply (simp add: top)
         apply (rule refl)
        apply (simp add: run)
       apply (rule t1)
      apply (rule empty)
     apply (rule refl)
    apply (rule st(3))
    done
  have c: "task_block_enter ex_env blocker_wait_ops
        (ex_state\<lparr>heap_top := 8,
                  blockers := (blockers ex_state)(8 \<mapsto>
                    \<lparr>blocker_result = BLOCKER_UNBLOCKED, blocker_timeout = 0,
                     blocker_kind = BlockerWait 2 12288\<rparr>)\<rparr>) 1 8 (- 1) =
       Inr (Suspended
            (ex_state\<lparr>heap_top := 8,
                      blockers := (blockers ex_state)(8 \<mapsto>
                        \<lparr>blocker_result = BLOCKER_UNBLOCKED, blocker_timeout = - 1,
                         blocker_kind = BlockerWait 2 12288\<rparr>),
                      events := events ex_state @
                        [Scheduler_did_change_task_state 1 (task_state R) TASK_STATE_BLOCKED],
                      tasks := (tasks ex_state)(1 \<mapsto>
                        R\<lparr>task_blocker := 8, task_state := TASK_STATE_BLOCKED\<rparr>)\<rparr>)) \<and>
     task_wait ex_env running_first ex_state 1 12288 = Inl NeverResumed"
    using slow yield by (intro conjI) (rule conjunct1, assumption, rule conjunct2 [THEN mp], assumption, rule yield)
  from a b c show "task_wait ex_env running_first ex_state 9 12288 = Inr (ERR_NO_SUCH_TASK, ex_state) \<and>
     task_wait ex_env running_first ex_state 2 12288 =
       Inr (SUCCESS,
            ex_state\<lparr>heap_top := 8,
                     memory := memcpy (memory ex_state) 12288 (bytes_of_word 42),
                     tasks := (tasks ex_state)(1 \<mapsto>
                        (ex_task 0 TASK_STATE_RUNNING NULL [7] 0)\<lparr>task_blocker := NULL\<rparr>),
                     blockers := (blockers ex_state)(8 := None)\<rparr>) \<and>
     task_block_enter ex_env blocker_wait_ops
        (ex_state\<lparr>heap_top := 8,
                  blockers := (blockers ex_state)(8 \<mapsto>
                    \<lparr>blocker_result = BLOCKER_UNBLOCKED, blocker_timeout = 0,
                     blocker_kind = BlockerWait 2 12288\<rparr>)\<rparr>) 1 8 (- 1) =
       Inr (Suspended
            (ex_state\<lparr>heap_top := 8,
                      blockers := (blockers ex_state)(8 \<mapsto>
                        \<lparr>blocker_result = BLOCKER_UNBLOCKED, blocker_timeout = - 1,
                         blocker_kind = BlockerWait 2 12288\<rparr>),
                      events := events ex_state @
                        [Scheduler_did_change_task_state 1
                           (task_state (ex_task 0 TASK_STATE_RUNNING NULL [7] 0))
                           TASK_STATE_BLOCKED],
                      tasks := (tasks ex_state)(1 \<mapsto>
                        (ex_task 0 TASK_STATE_RUNNING NULL [7] 0)
                          \<lparr>task_blocker := 8, task_state := TASK_STATE_BLOCKED\<rparr>)\<rparr>)) \<and>
     task_wait ex_env running_first ex_state 1 12288 = Inl NeverResumed"
    unfolding R_def by (intro conjI) (simp_all only:)
qed

subsection \<open>The blocker slot\<close>

text \<open>
  C1, as stated, fails on the code: \<open>task_cancel\<close> on a \<open>BLOCKED\<close> task, for
  which the equivalence holds, leaves the task \<open>CANCELED\<close> with its blocker still
  in the slot.
\<close>

theorem blocker_equivalence_counterexample:
  "tasks ex_state 2 = Some (ex_task 1 TASK_STATE_BLOCKED 3 [] 0) \<and>
   blocker_equivalence (ex_task 1 TASK_STATE_BLOCKED 3 [] 0) \<and>
   task_cancel ex_state 2 7 =
     Inr (SUCCESS,
          ex_state\<lparr>events := [Scheduler_did_change_task_state 2 TASK_STATE_BLOCKED TASK_STATE_CANCELED],
                   tasks := (tasks ex_state)(2 \<mapsto>
                      (ex_task 1 TASK_STATE_CANCELED 3 [] 7))\<rparr>) \<and>
   \<not> blocker_equivalence (ex_task 1 TASK_STATE_CANCELED 3 [] 7)"
  by (simp add: task_cancel_def task_set_state_def atomic_begin_def atomic_end_def
      ASSERT_ATOMIC_def log_event_def Let_def ex_state_def ex_task_def NULL_def
      blocker_equivalence_def)

text \<open>
  C1, amended. Only \<open>task_block\<close> writes the blocker slot of a live task. It
  asserts that the slot is empty before it installs a blocker, so a task has at
  most one; when it returns on the fast path the slot is empty; when it yields,
  the blocker is in the slot and the task is \<open>BLOCKED\<close>; when it resumes it
  empties the slot and leaves the state as the scheduler set it. \<open>task_set_state\<close>
  and \<open>task_cancel\<close> keep the slot as it is and set the state (\<open>CANCELED\<close> for
  \<open>task_cancel\<close>): the equivalence holds after \<open>task_set_state\<close> exactly when the
  slot is non-empty iff the new state is \<open>BLOCKED\<close>, and after \<open>task_cancel\<close>
  exactly when the task had no blocker. \<open>task_destroy\<close> frees the task.
\<close>

theorem blocker_slot_discipline:
  fixes E :: "'p env"
  assumes live: "tasks s task = Some T"
  shows "(task_blocker T \<noteq> NULL \<longrightarrow>
            task_block_enter E ops s task blocker timeout = Inl AssertionFailed) \<and>
         (\<forall>s'. task_block_enter E ops s task blocker timeout = Inr (Suspended s') \<longrightarrow>
            (\<exists>T'. tasks s' task = Some T' \<and> task_blocker T' = blocker \<and>
                  task_state T' = TASK_STATE_BLOCKED \<and>
                  blocker_equivalence T' = (blocker \<noteq> NULL))) \<and>
         (\<forall>r s'. task_block_enter E ops s task blocker timeout = Inr (Returned r s') \<longrightarrow>
            (\<exists>T'. tasks s' task = Some T' \<and> task_blocker T' = NULL \<and>
                  blocker_equivalence T' = (task_state T' \<noteq> TASK_STATE_BLOCKED))) \<and>
         (\<forall>r s'. task_block_resume s task blocker = Inr (r, s') \<longrightarrow>
            (\<exists>T'. tasks s' task = Some T' \<and> task_blocker T' = NULL \<and>
                  task_state T' = task_state T \<and>
                  blocker_equivalence T' = (task_state T \<noteq> TASK_STATE_BLOCKED))) \<and>
         (ASSERT_ATOMIC s \<longrightarrow>
            (\<exists>s' T'. task_set_state s task st = Inr s' \<and> tasks s' task = Some T' \<and>
                  task_blocker T' = task_blocker T \<and> task_state T' = st \<and>
                  blocker_equivalence T' =
                    ((task_blocker T \<noteq> NULL) = (st = TASK_STATE_BLOCKED)))) \<and>
         (task \<noteq> NULL \<longrightarrow>
            (\<exists>s' T'. task_cancel s task v = Inr (SUCCESS, s') \<and> tasks s' task = Some T' \<and>
                  task_blocker T' = task_blocker T \<and> task_state T' = TASK_STATE_CANCELED \<and>
                  blocker_equivalence T' = (task_blocker T = NULL))) \<and>
         (\<forall>s'. task_destroy E s task = Inr s' \<longrightarrow> tasks s' task = None)"
proof -
  have twice: "task_blocker T \<noteq> NULL \<longrightarrow>
            task_block_enter E ops s task blocker timeout = Inl AssertionFailed"
    using task_block_enter_twice [OF live] by blast
  have susp: "\<forall>s'. task_block_enter E ops s task blocker timeout = Inr (Suspended s') \<longrightarrow>
            (\<exists>T'. tasks s' task = Some T' \<and> task_blocker T' = blocker \<and>
                  task_state T' = TASK_STATE_BLOCKED \<and>
                  blocker_equivalence T' = (blocker \<noteq> NULL))"
    using task_block_enter_suspended [OF live, of E ops blocker timeout]
    by (simp add: blocker_equivalence_def)
  have ret: "\<forall>r s'. task_block_enter E ops s task blocker timeout = Inr (Returned r s') \<longrightarrow>
            (\<exists>T'. tasks s' task = Some T' \<and> task_blocker T' = NULL \<and>
                  blocker_equivalence T' = (task_state T' \<noteq> TASK_STATE_BLOCKED))"
    using task_block_enter_returned [of E ops s task blocker timeout]
    by (fastforce simp: blocker_equivalence_def)
  have res: "\<forall>r s'. task_block_resume s task blocker = Inr (r, s') \<longrightarrow>
            (\<exists>T'. tasks s' task = Some T' \<and> task_blocker T' = NULL \<and>
                  task_state T' = task_state T \<and>
                  blocker_equivalence T' = (task_state T \<noteq> TASK_STATE_BLOCKED))"
    using task_block_resume_clears [OF live, of blocker]
    by (simp add: blocker_equivalence_def)
  have set_state: "ASSERT_ATOMIC s \<longrightarrow>
            (\<exists>s' T'. task_set_state s task st = Inr s' \<and> tasks s' task = Some T' \<and>
                  task_blocker T' = task_blocker T \<and> task_state T' = st \<and>
                  blocker_equivalence T' =
                    ((task_blocker T \<noteq> NULL) = (st = TASK_STATE_BLOCKED)))"
    using task_set_state_live [OF live, of st] by (simp add: blocker_equivalence_def)
  have cancel: "task \<noteq> NULL \<longrightarrow>
            (\<exists>s' T'. task_cancel s task v = Inr (SUCCESS, s') \<and> tasks s' task = Some T' \<and>
                  task_blocker T' = task_blocker T \<and> task_state T' = TASK_STATE_CANCELED \<and>
                  blocker_equivalence T' = (task_blocker T = NULL))"
  proof
    assume "task \<noteq> NULL"
    from task_cancel_live [OF this live, of v] obtain s' where
      "task_cancel s task v = Inr (SUCCESS, s')"
      "tasks s' task = Some (T\<lparr>task_exit_value := v, task_state := TASK_STATE_CANCELED\<rparr>)"
      by blast
    then show "\<exists>s' T'. task_cancel s task v = Inr (SUCCESS, s') \<and> tasks s' task = Some T' \<and>
                  task_blocker T' = task_blocker T \<and> task_state T' = TASK_STATE_CANCELED \<and>
                  blocker_equivalence T' = (task_blocker T = NULL)"
      by (simp add: blocker_equivalence_def)
  qed
  have destroy: "\<forall>s'. task_destroy E s task = Inr s' \<longrightarrow> tasks s' task = None"
    using task_destroy_frees [of E s task] by blast
  from twice susp ret res set_state cancel destroy show ?thesis
    by (intro conjI)
qed

theorem blocker_slot_discipline_witness:
  "tasks ex_state 2 = Some (ex_task 1 TASK_STATE_BLOCKED 3 [] 0) \<and>
   task_block_enter ex_env blocker_wait_ops ex_state 2 5 (- 1) = Inl AssertionFailed \<and>
   (\<exists>s' T'. task_cancel ex_state 2 7 = Inr (SUCCESS, s') \<and> tasks s' 2 = Some T' \<and>
         task_blocker T' = 3 \<and> task_state T' = TASK_STATE_CANCELED \<and>
         \<not> blocker_equivalence T')"
proof -
  have l: "tasks ex_state 2 = Some (ex_task 1 TASK_STATE_BLOCKED 3 [] 0)"
    by (simp add: ex_state_def)
  have b: "task_blocker (ex_task 1 TASK_STATE_BLOCKED 3 [] 0) = 3" "(3::ptr) \<noteq> NULL"
    by (simp_all add: ex_task_def NULL_def)
  have n: "(2::ptr) \<noteq> NULL" by (simp add: NULL_def)
  show ?thesis
    using blocker_slot_discipline [OF l, of ex_env blocker_wait_ops 5 "- 1" _ 7] l b n
    by (metis (no_types, lifting))
qed

subsection \<open>Cancelling\<close>

text \<open>
  C10. For every live, non-null task in any state and every exit value \<open>v\<close>,
  \<open>task_cancel\<close> returns \<open>SUCCESS\<close>; it stores \<open>v\<close> in the task's exit value, reports
  the change from the old state to \<open>CANCELED\<close> to the scheduler and then sets the
  state, and leaves everything else as it was. Nothing restricts the old state:
  a task that is already \<open>CANCELED\<close> is cancelled again and its exit value
  overwritten.
\<close>

theorem task_cancel_any_state:
  assumes "task \<noteq> NULL" and "tasks s task = Some T"
  shows "task_cancel s task v =
           Inr (SUCCESS,
                s\<lparr>events := events s @
                     [Scheduler_did_change_task_state task (task_state T) TASK_STATE_CANCELED],
                  tasks := (tasks s)(task \<mapsto>
                     T\<lparr>task_exit_value := v, task_state := TASK_STATE_CANCELED\<rparr>)\<rparr>)"
  using assms
  by (simp add: task_cancel_def task_set_state_def atomic_begin_def atomic_end_def
      ASSERT_ATOMIC_def log_event_def Let_def)

theorem task_cancel_any_state_witness:
  "(2::ptr) \<noteq> NULL \<and> tasks ex_state 2 = Some (ex_task 1 TASK_STATE_BLOCKED 3 [] 0) \<and>
   task_cancel ex_state 2 7 =
     Inr (SUCCESS,
          ex_state\<lparr>events := [Scheduler_did_change_task_state 2 TASK_STATE_BLOCKED TASK_STATE_CANCELED],
                   tasks := (tasks ex_state)(2 \<mapsto>
                      (ex_task 1 TASK_STATE_BLOCKED 3 [] 0)
                        \<lparr>task_exit_value := 7, task_state := TASK_STATE_CANCELED\<rparr>)\<rparr>)"
proof -
  have n: "(2::ptr) \<noteq> NULL" by (simp add: NULL_def)
  have l: "tasks ex_state 2 = Some (ex_task 1 TASK_STATE_BLOCKED 3 [] 0)" by (simp add: ex_state_def)
  show ?thesis
    using task_cancel_any_state [OF n l, of 7] n l by (simp add: ex_state_def ex_task_def)
qed

subsection \<open>Destroying\<close>

text \<open>
  C8. Let \<open>task\<close> be a live task in a registry without duplicates whose tasks
  are live and in which no other task has its id, let the reference counts be
  right, and let the mappings in the task's list be live and distinct. Then
  \<open>task_destroy\<close> completes. Afterwards the task is not in the registry,
  \<open>task_by_id\<close> with its id finds nothing, and the task is freed; the change to
  \<open>NONE\<close> was reported to the scheduler first (unless the task was in \<open>NONE\<close>
  already), every mapping of the task was destroyed (the only calls made
  meanwhile free virtual and physical ranges), then the handles were closed, the
  stack was freed, and the address space was destroyed exactly when it is not
  the kernel's.
\<close>

theorem task_destroy_removes_task:
  fixes E :: "'p env"
  assumes live: "tasks s task = Some T"
    and dist: "distinct (all_tasks s)"
    and reg: "\<forall>t \<in> set (all_tasks s). tasks s t \<noteq> None"
    and uniq: "\<forall>t \<in> set (all_tasks s). \<forall>T'. tasks s t = Some T' \<and> task_id T' = task_id T
                 \<longrightarrow> t = task"
    and inv: "refcount_invariant s temp"
    and maps: "distinct (task_memory_mapping T)"
      "\<forall>m \<in> set (task_memory_mapping T). mappings s m \<noteq> None"
  shows "\<exists>s' evs.
           task_destroy E s task = Inr s' \<and>
           all_tasks s' = remove1 task (all_tasks s) \<and>
           task \<notin> set (all_tasks s') \<and>
           task_by_id s' (task_id T) = Inr NULL \<and>
           tasks s' = (tasks s)(task := None) \<and>
           (\<forall>m \<in> set (task_memory_mapping T). mappings s' m = None) \<and>
           events s' =
             events s @
             (if task_state T \<noteq> TASK_STATE_NONE
              then [Scheduler_did_change_task_state task (task_state T) TASK_STATE_NONE]
              else []) @
             evs @
             [Task_fshandle_close_all task,
              Memory_free (task_pdir T) (task_stack T) (PROCESS_STACK_SIZE E)] @
             (if task_pdir T \<noteq> memory_kpdir E then [Memory_pdir_destroy (task_pdir T)]
              else []) \<and>
           (\<forall>e \<in> set evs. (\<exists>p a n. e = Virtual_free p a n) \<or> (\<exists>a n. e = Physical_free a n))"
proof -
  define T2 where "T2 = (if task_state T \<noteq> TASK_STATE_NONE
                         then T\<lparr>task_state := TASK_STATE_NONE\<rparr> else T)"
  define ev2 where "ev2 = (if task_state T \<noteq> TASK_STATE_NONE
              then [Scheduler_did_change_task_state task (task_state T) TASK_STATE_NONE]
              else [])"
  define s2 where "s2 = (atomic_begin s)\<lparr>events := events s @ ev2,
                                         tasks := (tasks s)(task \<mapsto> T2)\<rparr>"
  have T1: "tasks (atomic_begin s) task = Some T" using live by (simp add: atomic_begin_def)
  have st: "(if task_state T \<noteq> TASK_STATE_NONE
             then task_set_state (atomic_begin s) task TASK_STATE_NONE
             else Inr (atomic_begin s)) = Inr s2"
  proof (cases "task_state T \<noteq> TASK_STATE_NONE")
    case True
    then show ?thesis
      using live
      by (simp add: task_set_state_def ASSERT_ATOMIC_def atomic_begin_def log_event_def
          s2_def T2_def ev2_def)
  next
    case False
    have "(tasks s)(task \<mapsto> T) = tasks s" using live by (simp add: fun_upd_idem)
    with False show ?thesis
      by (simp add: s2_def T2_def ev2_def atomic_begin_def)
  qed
  define s3 where "s3 = atomic_end (s2\<lparr>all_tasks := remove1 task (all_tasks s2)\<rparr>)"
  have f3: "memory_objects s3 = memory_objects s" "mappings s3 = mappings s"
    "objects s3 = objects s" "heap_top s3 = heap_top s"
    "all_tasks s3 = remove1 task (all_tasks s)" "tasks s3 = (tasks s)(task \<mapsto> T2)"
    "events s3 = events s @ ev2"
    by (simp_all add: s3_def s2_def atomic_end_def atomic_begin_def)
  have inv3: "refcount_invariant s3 temp"
    using inv by (simp add: refcount_invariant_cong [OF f3(1-4)])
  have live3: "tasks s3 task = Some T2" by (simp add: f3)
  have ms: "task_memory_mapping T2 = task_memory_mapping T"
    and pd: "task_pdir T2 = task_pdir T" and stk: "task_stack T2 = task_stack T"
    by (simp_all add: T2_def)
  have all3: "\<forall>m \<in> set (task_memory_mapping T). mappings s3 m \<noteq> None"
    using maps(2) by (simp add: f3)
  from destroy_memory_mappings_complete [OF inv3 live3 maps(1) all3, of E]
  obtain s4 l evs where loop: "destroy_memory_mappings E s3 task (task_memory_mapping T) = Inr s4"
    and t4: "tasks s4 = (tasks s3)(task \<mapsto> T2\<lparr>task_memory_mapping := l\<rparr>)"
    and a4: "all_tasks s4 = all_tasks s3"
    and n4: "\<forall>m \<in> set (task_memory_mapping T). mappings s4 m = None"
    and e4: "events s4 = events s3 @ evs"
    and k4: "\<forall>e \<in> set evs. (\<exists>p a n. e = Virtual_free p a n) \<or> (\<exists>a n. e = Physical_free a n)"
    by blast
  define T4 where "T4 = T2\<lparr>task_memory_mapping := l\<rparr>"
  have live4: "tasks s4 task = Some T4" by (simp add: t4 T4_def)
  define s' where "s' = (let s5 = log_event (Task_fshandle_close_all task) s4;
                   s6 = log_event (Memory_free (task_pdir T4) (task_stack T4)
                                     (PROCESS_STACK_SIZE E)) s5;
                   s7 = (if task_pdir T4 \<noteq> memory_kpdir E
                         then log_event (Memory_pdir_destroy (task_pdir T4)) s6
                         else s6)
               in s7\<lparr>tasks := (tasks s7)(task := None)\<rparr>)"
  note fin = task_destroy_final_frame [OF s'_def]
  have res: "task_destroy E s task = Inr s'"
    using T1 st loop live4
    by (simp add: task_destroy_def s3_def [symmetric] ms s'_def Let_def)
  have a': "all_tasks s' = remove1 task (all_tasks s)" by (simp add: fin a4 f3)
  have notin: "task \<notin> set (all_tasks s')" using dist by (simp add: a')
  have t': "tasks s' = (tasks s)(task := None)" by (simp add: fin t4 f3)
  have "\<forall>t \<in> set (all_tasks s'). \<exists>T'. tasks s' t = Some T' \<and> task_id T' \<noteq> task_id T"
  proof
    fix t assume "t \<in> set (all_tasks s')"
    with dist have t: "t \<in> set (all_tasks s)" "t \<noteq> task" by (auto simp: a')
    with reg obtain T' where T': "tasks s t = Some T'" by auto
    with uniq t have "task_id T' \<noteq> task_id T" by blast
    with T' t show "\<exists>T'. tasks s' t = Some T' \<and> task_id T' \<noteq> task_id T"
      by (simp add: t')
  qed
  then have byid: "task_by_id s' (task_id T) = Inr NULL"
    unfolding task_by_id_def by (rule task_by_id_loop_none)
  have n': "\<forall>m \<in> set (task_memory_mapping T). mappings s' m = None"
    using n4 by (simp add: fin)
  have e': "events s' = events s @ ev2 @ evs @
             [Task_fshandle_close_all task,
              Memory_free (task_pdir T) (task_stack T) (PROCESS_STACK_SIZE E)] @
             (if task_pdir T \<noteq> memory_kpdir E then [Memory_pdir_destroy (task_pdir T)]
              else [])"
    by (simp add: fin e4 f3 T4_def pd stk)
  from res a' notin byid t' n' e' k4 show ?thesis
    unfolding ev2_def by blast
qed

theorem task_destroy_removes_task_witness:
  "\<exists>s'. task_destroy ex_env ex_state 1 = Inr s' \<and>
        1 \<notin> set (all_tasks s') \<and> task_by_id s' 0 = Inr NULL \<and>
        tasks s' 1 = None \<and> mappings s' 7 = None \<and>
        Memory_pdir_destroy 100 \<notin> set (events s')"
proof -
  define T where "T = ex_task 0 TASK_STATE_RUNNING NULL [7] 0"
  have live: "tasks ex_state 1 = Some T" by (simp add: ex_state_def T_def)
  have dist: "distinct (all_tasks ex_state)" by (simp add: ex_state_def)
  have reg: "\<forall>t \<in> set (all_tasks ex_state). tasks ex_state t \<noteq> None"
    by (simp add: ex_state_def)
  have uniq: "\<forall>t \<in> set (all_tasks ex_state). \<forall>T'. tasks ex_state t = Some T' \<and>
      task_id T' = task_id T \<longrightarrow> t = 1"
    by (simp add: ex_state_def ex_task_def T_def)
  have maps: "distinct (task_memory_mapping T)"
    "\<forall>m \<in> set (task_memory_mapping T). mappings ex_state m \<noteq> None"
    by (simp_all add: T_def ex_task_def ex_state_def)
  have T': "task_id T = 0" "task_memory_mapping T = [7]" "task_pdir T = memory_kpdir ex_env"
    "task_state T = TASK_STATE_RUNNING" "events ex_state = []"
    by (simp_all add: T_def ex_task_def ex_env_def ex_state_def)
  from task_destroy_removes_task [OF live dist reg uniq ex_state_refcount_invariant maps, of ex_env]
  obtain s' evs where r: "task_destroy ex_env ex_state 1 = Inr s'"
    "1 \<notin> set (all_tasks s')" "task_by_id s' (task_id T) = Inr NULL"
    "tasks s' = (tasks ex_state)(1 := None)"
    "\<forall>m \<in> set (task_memory_mapping T). mappings s' m = None"
    and ev: "events s' =
             events ex_state @
             (if task_state T \<noteq> TASK_STATE_NONE
              then [Scheduler_did_change_task_state 1 (task_state T) TASK_STATE_NONE]
              else []) @
             evs @
             [Task_fshandle_close_all 1,
              Memory_free (task_pdir T) (task_stack T) (PROCESS_STACK_SIZE ex_env)] @
             (if task_pdir T \<noteq> memory_kpdir ex_env then [Memory_pdir_destroy (task_pdir T)]
              else [])"
    and k: "\<forall>e \<in> set evs. (\<exists>p a n. e = Virtual_free p a n) \<or> (\<exists>a n. e = Physical_free a n)"
    by blast
  have "Memory_pdir_destroy 100 \<notin> set evs" using k by auto
  then have "Memory_pdir_destroy 100 \<notin> set (events s')"
    by (simp add: ev T')
  with r show ?thesis by (auto simp: T')
qed

subsection \<open>Spawning\<close>

text \<open>
  C2 fails on the code. \<open>task_spawn_with_argv\<close> passes the constant \<open>true\<close> to
  \<open>task_set_entry\<close> where \<open>task_spawn\<close> passes \<open>user\<close>: called with \<open>user = false\<close>
  (and no parent), it returns a task that runs in the kernel's page directory,
  as \<open>task_create\<close> chose for a kernel task, and whose \<open>user\<close> attribute is
  true.
\<close>

theorem task_spawn_with_argv_ignores_user:
  "\<exists>task s' T. task_spawn_with_argv E s NULL name entry argv False = Inr (task, s') \<and>
      tasks s' task = Some T \<and> task_user T = True \<and> task_pdir T = memory_kpdir E"
proof -
  have "ASSERT_ATOMIC (atomic_begin s)" by (simp add: ASSERT_ATOMIC_def atomic_begin_def)
  from task_create_no_parent [OF this, of E name False]
  obtain task s1 T1 where c: "task_create E (atomic_begin s) NULL name False = Inr (task, s1)"
    and l1: "tasks s1 task = Some T1" and p1: "task_pdir T1 = memory_kpdir E" by auto
  define T2 where "T2 = T1\<lparr>task_entry := entry, task_user := True\<rparr>"
  define s2 where "s2 = s1\<lparr>tasks := (tasks s1)(task \<mapsto> T2)\<rparr>"
  have e: "task_set_entry s1 task entry True = Inr s2"
    using l1 by (simp add: task_set_entry_def s2_def T2_def)
  have l2: "tasks s2 task = Some T2" by (simp add: s2_def)
  from push_argv_live [OF l2, of "take (PROCESS_ARG_COUNT E) argv"]
  obtain addrs s3 sp3 where a: "push_argv s2 task (take (PROCESS_ARG_COUNT E) argv) = Inr (addrs, s3)"
    and l3: "tasks s3 task = Some (T2\<lparr>task_stack_pointer := sp3\<rparr>)" by blast
  from task_stack_push_live [OF l3]
  obtain sp4 s4 where p4: "task_stack_push s3 task
        (concat (map bytes_of_word (addrs @ replicate (PROCESS_ARG_COUNT E - length addrs) 0)))
        = Inr (sp4, s4)"
    and l4: "tasks s4 task = Some (T2\<lparr>task_stack_pointer := sp3\<rparr>\<lparr>task_stack_pointer := sp4\<rparr>)"
    by blast
  from task_stack_push_live [OF l4]
  obtain sp5 s5 where p5: "task_stack_push s4 task (bytes_of_word sp4) = Inr (sp5, s5)"
    and l5: "tasks s5 task = Some (T2\<lparr>task_stack_pointer := sp3\<rparr>\<lparr>task_stack_pointer := sp4\<rparr>
                                      \<lparr>task_stack_pointer := sp5\<rparr>)"
    by blast
  from task_stack_push_live [OF l5]
  obtain sp6 s6 where p6: "task_stack_push s5 task (bytes_of_word (word_of_nat (length addrs)))
        = Inr (sp6, s6)"
    and l6: "tasks s6 task = Some (T2\<lparr>task_stack_pointer := sp3\<rparr>\<lparr>task_stack_pointer := sp4\<rparr>
                                      \<lparr>task_stack_pointer := sp5\<rparr>\<lparr>task_stack_pointer := sp6\<rparr>)"
    by blast
  have r: "task_spawn_with_argv E s NULL name entry argv False = Inr (task, atomic_end s6)"
    using c e a p4 p5 p6 by (simp add: task_spawn_with_argv_def Let_def)
  have "tasks (atomic_end s6) task = Some (T2\<lparr>task_stack_pointer := sp6\<rparr>)"
    using l6 by (simp add: atomic_end_def)
  moreover have "task_user (T2\<lparr>task_stack_pointer := sp6\<rparr>) = True"
    "task_pdir (T2\<lparr>task_stack_pointer := sp6\<rparr>) = memory_kpdir E"
    using p1 by (simp_all add: T2_def)
  ultimately show ?thesis using r by blast
qed

subsection \<open>Shared memory\<close>

text \<open>
  C6. In a state where the reference counts are right and nothing is held
  temporarily, \<open>task_shared_memory_alloc\<close> on a live task succeeds; the object
  it creates is new and registered, its \<open>refcount\<close> is 1, and the only mapping
  that references it is the new one, which is appended to the task's list.
  In general the counts stay right: \<open>task_shared_memory_alloc\<close>,
  \<open>task_shared_memory_free\<close>, \<open>task_shared_memory_include\<close> and \<open>task_destroy\<close>
  lead from such a state to such a state, each mapping accounting for one
  reference to its object, and a lookup by \<open>memory_object_by_id\<close> that finds an
  object leaves it with one temporary reference more.
\<close>

theorem shared_memory_refcounts:
  fixes E :: "'p env"
  assumes inv: "refcount_invariant s (\<lambda>_. 0)"
    and live: "tasks s task = Some T"
  shows "(\<exists>addr obj m s' ob M.
            task_shared_memory_alloc E s task size0 = Inr (SUCCESS, addr, s') \<and>
            obj \<notin> set (memory_objects s) \<and> obj \<in> set (memory_objects s') \<and>
            objects s' obj = Some ob \<and> object_refcount ob = 1 \<and>
            mappings_of_object s' obj = [m] \<and>
            mappings s' m = Some M \<and> mapping_object M = obj \<and> mapping_address M = addr \<and>
            tasks s' task = Some (T\<lparr>task_memory_mapping := task_memory_mapping T @ [m]\<rparr>) \<and>
            refcount_invariant s' (\<lambda>_. 0)) \<and>
         (\<forall>address r s'. task_shared_memory_free E s task address = Inr (r, s')
            \<longrightarrow> refcount_invariant s' (\<lambda>_. 0)) \<and>
         (\<forall>handle r out s'. task_shared_memory_include E s task handle = Inr (r, out, s')
            \<longrightarrow> refcount_invariant s' (\<lambda>_. 0)) \<and>
         (\<forall>i obj s'. memory_object_by_id s i = Inr (obj, s') \<and> obj \<noteq> NULL
            \<longrightarrow> refcount_invariant s' ((\<lambda>_. 0)(obj := 1))) \<and>
         (\<forall>s'. task_destroy E s task = Inr s' \<longrightarrow> refcount_invariant s' (\<lambda>_. 0))"
proof -
  note alloc = task_shared_memory_alloc_invariant [OF inv live, of E size0]
  have free: "\<forall>address r s'. task_shared_memory_free E s task address = Inr (r, s')
            \<longrightarrow> refcount_invariant s' (\<lambda>_. 0)"
    using task_shared_memory_free_invariant [OF inv] by blast
  have incl: "\<forall>handle r out s'. task_shared_memory_include E s task handle = Inr (r, out, s')
            \<longrightarrow> refcount_invariant s' (\<lambda>_. 0)"
    using task_shared_memory_include_invariant [OF inv] by blast
  have byid: "\<forall>i obj s'. memory_object_by_id s i = Inr (obj, s') \<and> obj \<noteq> NULL
            \<longrightarrow> refcount_invariant s' ((\<lambda>_. 0)(obj := 1))"
    using memory_object_by_id_invariant [OF inv] by blast
  have destroy: "\<forall>s'. task_destroy E s task = Inr s' \<longrightarrow> refcount_invariant s' (\<lambda>_. 0)"
    using task_destroy_invariant [OF inv] by blast
  from alloc free incl byid destroy show ?thesis by (intro conjI)
qed

theorem shared_memory_refcounts_witness:
  "refcount_invariant ex_state (\<lambda>_. 0) \<and>
   (\<exists>addr obj m s' ob.
      task_shared_memory_alloc ex_env ex_state 1 1 = Inr (SUCCESS, addr, s') \<and>
      objects s' obj = Some ob \<and> object_refcount ob = 1 \<and>
      mappings_of_object s' obj = [m] \<and> refcount_invariant s' (\<lambda>_. 0))"
proof -
  have live: "tasks ex_state 1 = Some (ex_task 0 TASK_STATE_RUNNING NULL [7] 0)"
    by (simp add: ex_state_def)
  from conjunct1 [OF shared_memory_refcounts [OF ex_state_refcount_invariant live, of ex_env 1]]
  have "\<exists>addr obj m s' ob.
      task_shared_memory_alloc ex_env ex_state 1 1 = Inr (SUCCESS, addr, s') \<and>
      objects s' obj = Some ob \<and> object_refcount ob = 1 \<and>
      mappings_of_object s' obj = [m] \<and> refcount_invariant s' (\<lambda>_. 0)"
    by blast
  with ex_state_refcount_invariant show ?thesis by blast
qed

text \<open>
  C7. For a live task whose mappings are live, \<open>task_shared_memory_free\<close> returns
  \<open>ERR_BAD_ADDRESS\<close> and the state it was given when no mapping of the task has
  the address as its base (an address inside a mapping is not its base). When
  some mapping has, the first such mapping is destroyed (it is freed and taken
  out of the task's list) and the result is \<open>SUCCESS\<close>.
\<close>

theorem task_shared_memory_free_exact:
  fixes E :: "'p env"
  assumes live: "tasks s task = Some T"
    and maps: "\<forall>m \<in> set (task_memory_mapping T). m \<noteq> NULL \<and>
                 (\<exists>M. mappings s m = Some M \<and> objects s (mapping_object M) \<noteq> None)"
  shows "((\<forall>m \<in> set (task_memory_mapping T). \<forall>M. mappings s m = Some M \<longrightarrow>
              mapping_address M \<noteq> address)
            \<longrightarrow> task_shared_memory_free E s task address = Inr (ERR_BAD_ADDRESS, s)) \<and>
         ((\<exists>m \<in> set (task_memory_mapping T). \<exists>M. mappings s m = Some M \<and>
              mapping_address M = address)
            \<longrightarrow> (\<exists>m M s'. task_memory_mapping_by_address s task address = Inr m \<and>
                   m \<in> set (task_memory_mapping T) \<and> mappings s m = Some M \<and>
                   mapping_address M = address \<and>
                   task_memory_mapping_destroy E s task m = Inr s' \<and>
                   task_shared_memory_free E s task address = Inr (SUCCESS, s') \<and>
                   mappings s' = (mappings s)(m := None) \<and>
                   tasks s' = (tasks s)(task \<mapsto>
                      T\<lparr>task_memory_mapping := remove1 m (task_memory_mapping T)\<rparr>)))"
proof (intro conjI impI)
  assume none: "\<forall>m \<in> set (task_memory_mapping T). \<forall>M. mappings s m = Some M \<longrightarrow>
              mapping_address M \<noteq> address"
  have "\<forall>m \<in> set (task_memory_mapping T). \<exists>M. mappings s m = Some M \<and> mapping_address M \<noteq> address"
    using maps none by fastforce
  then have "task_memory_mapping_by_address_loop (mappings s) (task_memory_mapping T) address
               = Inr NULL"
    by (rule by_address_loop_none)
  then show "task_shared_memory_free E s task address = Inr (ERR_BAD_ADDRESS, s)"
    using live by (simp add: task_shared_memory_free_def task_memory_mapping_by_address_def)
next
  assume some: "\<exists>m \<in> set (task_memory_mapping T). \<exists>M. mappings s m = Some M \<and>
              mapping_address M = address"
  have "\<forall>m \<in> set (task_memory_mapping T). mappings s m \<noteq> None"
    using maps by fastforce
  from by_address_loop_found [OF this some] obtain m M where
    f: "task_memory_mapping_by_address_loop (mappings s) (task_memory_mapping T) address = Inr m"
    and mem: "m \<in> set (task_memory_mapping T)" and M: "mappings s m = Some M"
    and a: "mapping_address M = address" by blast
  from mem maps M have nn: "m \<noteq> NULL" and obj: "objects s (mapping_object M) \<noteq> None"
    by auto
  have by_addr: "task_memory_mapping_by_address s task address = Inr m"
    using f live by (simp add: task_memory_mapping_by_address_def)
  from task_memory_mapping_destroy_live [OF live M obj, of E] obtain s' where
    d: "task_memory_mapping_destroy E s task m = Inr s'"
    and k: "mappings s' = (mappings s)(m := None)"
       "tasks s' = (tasks s)(task \<mapsto> T\<lparr>task_memory_mapping := remove1 m (task_memory_mapping T)\<rparr>)"
    by blast
  have "task_shared_memory_free E s task address = Inr (SUCCESS, s')"
    using by_addr nn d by (simp add: task_shared_memory_free_def)
  with by_addr mem M a d k
  show "\<exists>m M s'. task_memory_mapping_by_address s task address = Inr m \<and>
                   m \<in> set (task_memory_mapping T) \<and> mappings s m = Some M \<and>
                   mapping_address M = address \<and>
                   task_memory_mapping_destroy E s task m = Inr s' \<and>
                   task_shared_memory_free E s task address = Inr (SUCCESS, s') \<and>
                   mappings s' = (mappings s)(m := None) \<and>
                   tasks s' = (tasks s)(task \<mapsto>
                      T\<lparr>task_memory_mapping := remove1 m (task_memory_mapping T)\<rparr>)"
    by blast
qed

theorem task_shared_memory_free_exact_witness:
  "task_shared_memory_free ex_env ex_state 1 1073741828 = Inr (ERR_BAD_ADDRESS, ex_state) \<and>
   (\<exists>s'. task_shared_memory_free ex_env ex_state 1 1073741824 = Inr (SUCCESS, s') \<and>
         mappings s' 7 = None)"
proof -
  have live: "tasks ex_state 1 = Some (ex_task 0 TASK_STATE_RUNNING NULL [7] 0)"
    by (simp add: ex_state_def)
  have maps: "\<forall>m \<in> set (task_memory_mapping (ex_task 0 TASK_STATE_RUNNING NULL [7] 0)).
      m \<noteq> NULL \<and> (\<exists>M. mappings ex_state m = Some M \<and> objects ex_state (mapping_object M) \<noteq> None)"
    by (simp add: ex_state_def ex_task_def NULL_def)
  have none: "\<forall>m \<in> set (task_memory_mapping (ex_task 0 TASK_STATE_RUNNING NULL [7] 0)).
      \<forall>M. mappings ex_state m = Some M \<longrightarrow> mapping_address M \<noteq> 1073741828"
    by (simp add: ex_state_def ex_task_def)
  have some: "\<exists>m \<in> set (task_memory_mapping (ex_task 0 TASK_STATE_RUNNING NULL [7] 0)).
      \<exists>M. mappings ex_state m = Some M \<and> mapping_address M = 1073741824"
    by (simp add: ex_state_def ex_task_def)
  have m7: "m \<in> set (task_memory_mapping (ex_task 0 TASK_STATE_RUNNING NULL [7] 0)) \<Longrightarrow> m = 7" for m
    by (simp add: ex_task_def)
  from task_shared_memory_free_exact [OF live maps, of 1073741828 ex_env] none
  have a: "task_shared_memory_free ex_env ex_state 1 1073741828 = Inr (ERR_BAD_ADDRESS, ex_state)"
    by blast
  from task_shared_memory_free_exact [OF live maps, of 1073741824 ex_env] some
  obtain m s' where "m \<in> set (task_memory_mapping (ex_task 0 TASK_STATE_RUNNING NULL [7] 0))"
    "task_shared_memory_free ex_env ex_state 1 1073741824 = Inr (SUCCESS, s')"
    "mappings s' = (mappings ex_state)(m := None)"
    by blast
  with m7 [of m] have "task_shared_memory_free ex_env ex_state 1 1073741824 = Inr (SUCCESS, s') \<and>
         mappings s' 7 = None" by simp
  with a show ?thesis by blast
qed

subsection \<open>Current working directory\<close>

text \<open>
  C9. \<open>task_cwd_resolve\<close> combines a relative input with the task's cwd and
  normalizes the result; an absolute input is only normalized. So for a relative
  text \<open>rel\<close>, and any text \<open>abs_text\<close> of the path
  \<open>normalize (combine old_cwd rel)\<close> (it parses to an absolute path that normalizes
  to that path), \<open>task_set_cwd\<close> on \<open>rel\<close> and on \<open>abs_text\<close> give the same result
  and the same state.
\<close>

theorem task_set_cwd_relative:
  fixes E :: "'p env"
  assumes live: "tasks s task = Some T"
    and rel: "path_is_relative E (path_create E rel)"
    and abs: "\<not> path_is_relative E (path_create E abs_text)"
    and same: "path_normalize E (path_create E abs_text) =
                 path_normalize E (path_combine E (task_cwd_path T) (path_create E rel))"
  shows "task_cwd_resolve E s task rel =
           Inr (path_normalize E (path_combine E (task_cwd_path T) (path_create E rel))) \<and>
         task_cwd_resolve E s task abs_text = Inr (path_normalize E (path_create E abs_text)) \<and>
         task_set_cwd E s task rel = task_set_cwd E s task abs_text"
  using assms by (simp add: task_cwd_resolve_def task_set_cwd_def)

theorem task_set_cwd_relative_witness:
  "task_cwd_resolve ex_env ex_state 1 ''user'' = Inr ''/home/user'' \<and>
   task_cwd_resolve ex_env ex_state 1 ''/home/user'' = Inr ''/home/user'' \<and>
   task_set_cwd ex_env ex_state 1 ''user'' = task_set_cwd ex_env ex_state 1 ''/home/user'' \<and>
   task_set_cwd ex_env ex_state 1 ''user'' =
     Inr (SUCCESS,
          ex_state\<lparr>events := [Filesystem_find_and_ref 9, Fsnode_deref 9],
                   tasks := (tasks ex_state)(1 \<mapsto>
                      (ex_task 0 TASK_STATE_RUNNING NULL [7] 0)\<lparr>task_cwd_path := ''/home/user''\<rparr>)\<rparr>)"
proof -
  have live: "tasks ex_state 1 = Some (ex_task 0 TASK_STATE_RUNNING NULL [7] 0)"
    by (simp add: ex_state_def)
  have rel: "path_is_relative ex_env (path_create ex_env ''user'')"
    by (simp add: ex_env_def)
  have abs: "\<not> path_is_relative ex_env (path_create ex_env ''/home/user'')"
    by (simp add: ex_env_def)
  have same: "path_normalize ex_env (path_create ex_env ''/home/user'') =
       path_normalize ex_env (path_combine ex_env
          (task_cwd_path (ex_task 0 TASK_STATE_RUNNING NULL [7] 0)) (path_create ex_env ''user''))"
    by (simp add: ex_env_def ex_task_def)
  have run: "task_set_cwd ex_env ex_state 1 ''user'' =
     Inr (SUCCESS,
          ex_state\<lparr>events := [Filesystem_find_and_ref 9, Fsnode_deref 9],
                   tasks := (tasks ex_state)(1 \<mapsto>
                      (ex_task 0 TASK_STATE_RUNNING NULL [7] 0)\<lparr>task_cwd_path := ''/home/user''\<rparr>)\<rparr>)"
    using live
    by (simp add: task_set_cwd_def task_cwd_resolve_def log_event_def ex_env_def ex_task_def)
       (simp add: ex_state_def)
  show ?thesis
    using task_set_cwd_relative [OF live rel abs same] run
    by (simp add: ex_env_def ex_task_def)
qed

end
